theory Spec2Isabelle
  imports Complex_Main "HOL-Library.AList"
begin

section \<open>Time values\<close>

text \<open>
  The services exchange instants as ISO 8601 strings and compare them either through
  Luxon \<^verbatim>\<open>DateTime\<close> values or through \<^verbatim>\<open>new Date(s).getTime()\<close>; both orders are the
  order of the epoch-millisecond value. An instant is therefore carried as its epoch
  milliseconds. Strings that do not parse (\<^verbatim>\<open>parseDateTime\<close> throws on them) are not
  represented, and calendar arithmetic (\<^verbatim>\<open>startOf('day')\<close>, \<^verbatim>\<open>plus({days: n})\<close>,
  \<^verbatim>\<open>weekdayLong\<close>) is taken in UTC, where a day is 86400000 ms.
\<close>

type_synonym millis = int

definition msPerMinute :: int where
  "msPerMinute = 60000"

definition msPerDay :: int where
  "msPerDay = 86400000"

text \<open>\<^verbatim>\<open>Math.round\<close> of a quotient \<open>n / d\<close> with \<open>d > 0\<close>: the nearest integer, ties upwards.\<close>

definition roundDiv :: "int \<Rightarrow> int \<Rightarrow> int" where
  "roundDiv n d = (2 * n + d) div (2 * d)"

section \<open>Time-interval utilities (utils/datetime.ts)\<close>

definition rangesOverlap :: "millis \<Rightarrow> millis \<Rightarrow> millis \<Rightarrow> millis \<Rightarrow> bool" where
  "rangesOverlap s1 e1 s2 e2 = (s1 < e2 \<and> e1 > s2)"

text \<open>
  A Luxon \<^verbatim>\<open>Interval\<close>: \<^verbatim>\<open>Interval.fromDateTimes(s, e)\<close> is invalid (and has no start
  and no end) when \<open>e < s\<close>; a zero-length interval is valid.
\<close>

datatype Interval = Interval (ivStart: millis) (ivEnd: millis) | InvalidInterval

definition fromDateTimes :: "millis \<Rightarrow> millis \<Rightarrow> Interval" where
  "fromDateTimes s e = (if e < s then InvalidInterval else Interval s e)"

definition createInterval :: "millis \<Rightarrow> millis \<Rightarrow> Interval" where
  "createInterval s e = fromDateTimes s e"

fun isValid :: "Interval \<Rightarrow> bool" where
  "isValid (Interval s e) = True"
| "isValid InvalidInterval = False"

definition overlaps :: "Interval \<Rightarrow> Interval \<Rightarrow> bool" where
  "overlaps a b = (ivEnd a > ivStart b \<and> ivStart a < ivEnd b)"

definition abutsStart :: "Interval \<Rightarrow> Interval \<Rightarrow> bool" where
  "abutsStart a b = (ivEnd a = ivStart b)"

text \<open>The loop of \<^verbatim>\<open>mergeIntervals\<close> over \<^verbatim>\<open>sorted[1..]\<close>, with \<^verbatim>\<open>merged\<close> and \<^verbatim>\<open>current\<close>.\<close>

fun mergeIntervalsLoop :: "Interval list \<Rightarrow> Interval \<Rightarrow> Interval list \<Rightarrow> Interval list" where
  "mergeIntervalsLoop merged current [] = merged @ [current]"
| "mergeIntervalsLoop merged current (next # rest) =
     (if overlaps current next \<or> abutsStart current next
      then mergeIntervalsLoop merged
             (fromDateTimes (ivStart current)
                (if ivEnd current > ivEnd next then ivEnd current else ivEnd next))
             rest
      else mergeIntervalsLoop (merged @ [current]) next rest)"

text \<open>\<^verbatim>\<open>Array.prototype.sort\<close> is stable, as is \<^const>\<open>sort_key\<close>.\<close>

definition mergeIntervals :: "Interval list \<Rightarrow> Interval list" where
  "mergeIntervals intervals =
     (if intervals = [] then []
      else let validIntervals = filter isValid intervals in
        if validIntervals = [] then []
        else (case sort_key ivStart validIntervals of
                [] \<Rightarrow> []
              | current # rest \<Rightarrow> mergeIntervalsLoop [] current rest))"

text \<open>
  The \<^verbatim>\<open>for\<close> loop of \<^verbatim>\<open>findGaps\<close>; it returns the cursor and the gaps collected when the
  loop ends, by exhaustion or by its \<^verbatim>\<open>break\<close>.
\<close>

fun findGapsLoop ::
  "millis \<Rightarrow> millis \<Rightarrow> Interval list \<Rightarrow> millis \<Rightarrow> Interval list \<Rightarrow> millis \<times> Interval list" where
  "findGapsLoop rangeStart rangeEnd [] cursor gaps = (cursor, gaps)"
| "findGapsLoop rangeStart rangeEnd (interval # rest) cursor gaps =
     (if \<not> isValid interval then findGapsLoop rangeStart rangeEnd rest cursor gaps
      else if ivEnd interval \<le> rangeStart then findGapsLoop rangeStart rangeEnd rest cursor gaps
      else if ivStart interval \<ge> rangeEnd then (cursor, gaps)
      else
        let effectiveStart = (if ivStart interval > rangeStart then ivStart interval else rangeStart);
            effectiveEnd = (if ivEnd interval < rangeEnd then ivEnd interval else rangeEnd)
        in findGapsLoop rangeStart rangeEnd rest effectiveEnd
             (if cursor < effectiveStart then gaps @ [fromDateTimes cursor effectiveStart] else gaps))"

definition findGaps :: "Interval list \<Rightarrow> millis \<Rightarrow> millis \<Rightarrow> Interval list" where
  "findGaps intervals rangeStart rangeEnd =
     (case findGapsLoop rangeStart rangeEnd (mergeIntervals intervals) rangeStart [] of
        (cursor, gaps) \<Rightarrow>
          if cursor < rangeEnd then gaps @ [fromDateTimes cursor rangeEnd] else gaps)"

section \<open>Free/busy data (types/free-busy.ts)\<close>

datatype ProviderType = Exchange | Google | Microsoft

datatype BusyStatus = Busy | Tentative | Oof

record BusySlot =
  bsStart :: millis
  bsEnd :: millis
  bsStatus :: BusyStatus
  eventSubject :: "string option"
  eventId :: "string option"

record FreeSlot =
  fsStart :: millis
  fsEnd :: millis
  durationMinutes :: int

section \<open>Availability engine (services/free-busy-service.ts)\<close>

text \<open>The loop of \<^verbatim>\<open>mergeBusySlots\<close> over \<^verbatim>\<open>sorted[1..]\<close>.\<close>

fun mergeBusySlotsLoop :: "BusySlot list \<Rightarrow> BusySlot \<Rightarrow> BusySlot list \<Rightarrow> BusySlot list" where
  "mergeBusySlotsLoop merged current [] = merged @ [current]"
| "mergeBusySlotsLoop merged current (next # rest) =
     (if bsStart next \<le> bsEnd current
      then
        let current1 = (if bsEnd next > bsEnd current then current\<lparr>bsEnd := bsEnd next\<rparr> else current);
            current2 = (if bsStatus next = Busy \<or> bsStatus current1 \<noteq> Busy
                        then current1\<lparr>bsStatus := bsStatus next\<rparr> else current1)
        in mergeBusySlotsLoop merged current2 rest
      else mergeBusySlotsLoop (merged @ [current]) next rest)"

definition mergeBusySlots :: "BusySlot list \<Rightarrow> BusySlot list" where
  "mergeBusySlots slots =
     (case sort_key bsStart slots of
        [] \<Rightarrow> []
      | current # rest \<Rightarrow> mergeBusySlotsLoop [] current rest)"

definition computeFreeSlots :: "BusySlot list \<Rightarrow> millis \<Rightarrow> millis \<Rightarrow> FreeSlot list" where
  "computeFreeSlots busySlots rangeStart rangeEnd =
     map (\<lambda>gap. \<lparr>fsStart = ivStart gap, fsEnd = ivEnd gap,
                 durationMinutes = roundDiv (ivEnd gap - ivStart gap) msPerMinute\<rparr>)
       (filter isValid
          (findGaps (map (\<lambda>slot. createInterval (bsStart slot) (bsEnd slot)) busySlots)
             rangeStart rangeEnd))"

text \<open>
  The loop of \<^verbatim>\<open>findSuggestedSlots\<close>: a slot long enough is pushed, and the loop breaks as
  soon as \<^verbatim>\<open>suggested.length >= maxSuggestions\<close>.
\<close>

fun findSuggestedSlotsLoop :: "FreeSlot list \<Rightarrow> int \<Rightarrow> nat \<Rightarrow> FreeSlot list \<Rightarrow> FreeSlot list" where
  "findSuggestedSlotsLoop [] minDurationMinutes maxSuggestions suggested = suggested"
| "findSuggestedSlotsLoop (slot # rest) minDurationMinutes maxSuggestions suggested =
     (if durationMinutes slot \<ge> minDurationMinutes
      then
        let slotStart = fsStart slot;
            slotEnd = slotStart + minDurationMinutes * msPerMinute;
            suggested' = suggested @ [\<lparr>fsStart = slotStart, fsEnd = slotEnd,
                                        durationMinutes = minDurationMinutes\<rparr>]
        in if length suggested' \<ge> maxSuggestions then suggested'
           else findSuggestedSlotsLoop rest minDurationMinutes maxSuggestions suggested'
      else findSuggestedSlotsLoop rest minDurationMinutes maxSuggestions suggested)"

text \<open>\<^verbatim>\<open>findSuggestedSlots(freeSlots, minDurationMinutes)\<close> with the default \<^verbatim>\<open>maxSuggestions = 5\<close>.\<close>

definition findSuggestedSlots :: "FreeSlot list \<Rightarrow> int \<Rightarrow> FreeSlot list" where
  "findSuggestedSlots freeSlots minDurationMinutes =
     findSuggestedSlotsLoop freeSlots minDurationMinutes 5 []"

text \<open>
  Working hours. The \<^verbatim>\<open>"HH:mm"\<close> strings of the source are carried as the (hour, minute)
  pairs that \<^verbatim>\<open>split(':').map(Number)\<close> yields; \<open>whDays\<close> holds lower-case weekday names.
\<close>

record WorkingHours =
  whStart :: "int \<times> int"
  whEnd :: "int \<times> int"
  whDays :: "string list"

definition startOfDay :: "millis \<Rightarrow> millis" where
  "startOfDay t = (t div msPerDay) * msPerDay"

text \<open>\<^verbatim>\<open>dateTime.weekdayLong?.toLowerCase()\<close>; 1970-01-01 was a Thursday.\<close>

definition weekdayLong :: "millis \<Rightarrow> string" where
  "weekdayLong t =
     [''thursday'', ''friday'', ''saturday'', ''sunday'', ''monday'', ''tuesday'', ''wednesday'']
       ! nat ((t div msPerDay) mod 7)"

text \<open>\<^verbatim>\<open>dateTime.set({ hour, minute, second: 0, millisecond: 0 })\<close>.\<close>

definition setHourMinute :: "millis \<Rightarrow> int \<times> int \<Rightarrow> millis" where
  "setHourMinute t hm = startOfDay t + fst hm * 3600000 + snd hm * msPerMinute"

text \<open>
  \<^verbatim>\<open>getWorkingHoursForDay\<close>; \<open>defaults\<close> stands for \<^verbatim>\<open>getConfig().defaults.workingHours\<close>, which is
  read from the environment.
\<close>

definition getWorkingHoursForDay ::
  "WorkingHours \<Rightarrow> millis \<Rightarrow> WorkingHours option \<Rightarrow> (millis \<times> millis) option" where
  "getWorkingHoursForDay defaults dateTime workingHours =
     (let hours = (case workingHours of None \<Rightarrow> defaults | Some h \<Rightarrow> h);
          dayName = weekdayLong dateTime
      in if dayName \<notin> set (whDays hours) then None
         else Some (setHourMinute dateTime (whStart hours), setHourMinute dateTime (whEnd hours)))"

text \<open>
  The \<^verbatim>\<open>while (cursor < slotEnd)\<close> loop of \<^verbatim>\<open>filterToWorkingHours\<close> for one free slot; it
  returns what the loop pushes onto \<^verbatim>\<open>result\<close>.
\<close>

function filterToWorkingHoursLoop ::
  "WorkingHours \<Rightarrow> WorkingHours option \<Rightarrow> millis \<Rightarrow> millis \<Rightarrow> millis \<Rightarrow> FreeSlot list" where
  "filterToWorkingHoursLoop defaults workingHours slotStart slotEnd cursor =
     (if cursor < slotEnd then
        (case getWorkingHoursForDay defaults cursor workingHours of
           None \<Rightarrow> []
         | Some (workStart, workEnd) \<Rightarrow>
             let effectiveStart = (if slotStart > workStart then slotStart else workStart);
                 effectiveEnd = (if slotEnd < workEnd then slotEnd else workEnd)
             in if effectiveStart < effectiveEnd
                then [\<lparr>fsStart = effectiveStart, fsEnd = effectiveEnd,
                       durationMinutes = roundDiv (effectiveEnd - effectiveStart) msPerMinute\<rparr>]
                else [])
        @ filterToWorkingHoursLoop defaults workingHours slotStart slotEnd (cursor + msPerDay)
      else [])"
  by pat_completeness auto
termination
  by (relation "measure (\<lambda>(defaults, workingHours, slotStart, slotEnd, cursor). nat (slotEnd - cursor))")
     (auto simp: msPerDay_def)

definition filterToWorkingHours ::
  "WorkingHours \<Rightarrow> FreeSlot list \<Rightarrow> millis \<Rightarrow> millis \<Rightarrow> WorkingHours option \<Rightarrow> FreeSlot list" where
  "filterToWorkingHours defaults freeSlots rangeStart rangeEnd workingHours =
     concat (map (\<lambda>slot. filterToWorkingHoursLoop defaults workingHours (fsStart slot) (fsEnd slot)
                            (startOfDay (fsStart slot))) freeSlots)"

subsection \<open>Providers\<close>

text \<open>
  What a provider call can throw: a \<^verbatim>\<open>CalendarMCPError\<close> (message, code, retryable), another
  \<^verbatim>\<open>Error\<close> (message), or a value that is not an \<^verbatim>\<open>Error\<close>.
\<close>

datatype Thrown = CalendarMCPError string string bool | Error string | NonError

fun reasonMessage :: "Thrown \<Rightarrow> string" where
  "reasonMessage (CalendarMCPError message code retryable) = message"
| "reasonMessage (Error message) = message"
| "reasonMessage NonError = ''Unknown error''"

fun reasonCode :: "Thrown \<Rightarrow> string" where
  "reasonCode (CalendarMCPError message code retryable) = code"
| "reasonCode (Error message) = ''INTERNAL_ERROR''"
| "reasonCode NonError = ''INTERNAL_ERROR''"

fun reasonRetryable :: "Thrown \<Rightarrow> bool" where
  "reasonRetryable (CalendarMCPError message code retryable) = retryable"
| "reasonRetryable (Error message) = False"
| "reasonRetryable NonError = False"

datatype ShowAs = Free | ShowBusy | ShowTentative | ShowOof | WorkingElsewhere

text \<open>
  The fields of \<^verbatim>\<open>CalendarEvent\<close> that the three services read; \<open>evStart\<close> and \<open>evEnd\<close> are
  \<^verbatim>\<open>start.dateTime\<close> and \<^verbatim>\<open>end.dateTime\<close>.
\<close>

record CalendarEvent =
  evId :: string
  evProvider :: ProviderType
  evCalendarId :: string
  subject :: string
  evStart :: millis
  evEnd :: millis
  isAllDay :: bool
  showAs :: ShowAs
  location :: "string option"
  iCalUId :: "string option"

record FreeBusyParams =
  fbStartTime :: millis
  fbEndTime :: millis
  fbProviders :: "ProviderType list option"
  fbCalendarIds :: "string list option"
  slotDuration :: "int option"
  workingHoursOnly :: "bool option"
  workingHours :: "WorkingHours option"

record ListEventsParams =
  leStartTime :: millis
  leEndTime :: millis
  leProviders :: "ProviderType list option"
  leCalendarIds :: "string list option"
  searchQuery :: "string option"
  expandRecurring :: "bool option"
  maxResults :: "nat option"

record CalendarFreeBusy =
  cfProvider :: ProviderType
  cfCalendarId :: string
  calendarName :: string
  busy :: "BusySlot list"

text \<open>
  A connected provider, as far as the services use it: its identity and the outcome of
  its \<^verbatim>\<open>getFreeBusy\<close> and \<^verbatim>\<open>listEvents\<close> calls (\<open>Inl\<close>: the promise is rejected).
\<close>

record Provider =
  providerType :: ProviderType
  providerId :: string
  getFreeBusy :: "FreeBusyParams \<Rightarrow> Thrown + CalendarFreeBusy"
  listEvents :: "ListEventsParams \<Rightarrow> Thrown + CalendarEvent list"

record FreeBusyError =
  feProvider :: ProviderType
  feCalendarId :: "string option"
  feMessage :: string

text \<open>
  \<^verbatim>\<open>FreeBusyResponse\<close>. \<open>calendars\<close> is the \<^verbatim>\<open>Record<string, CalendarFreeBusy>\<close> in insertion
  order; \<open>unifiedBusy\<close> and \<open>unifiedFree\<close> are \<^verbatim>\<open>unified.busy\<close> and \<^verbatim>\<open>unified.free\<close>.
\<close>

record FreeBusyResponse =
  calendars :: "(string \<times> CalendarFreeBusy) list"
  unifiedBusy :: "BusySlot list"
  unifiedFree :: "FreeSlot list"
  suggestedSlots :: "FreeSlot list option"
  fbErrors :: "FreeBusyError list option"

text \<open>
  The loop over the settled results of \<^verbatim>\<open>getAggregatedFreeBusy\<close>, with its three
  accumulators \<^verbatim>\<open>calendars\<close>, \<^verbatim>\<open>errors\<close> and \<^verbatim>\<open>allBusySlots\<close>.
\<close>

fun settleFreeBusy ::
  "FreeBusyParams \<Rightarrow> Provider list \<Rightarrow>
   (string \<times> CalendarFreeBusy) list \<times> FreeBusyError list \<times> BusySlot list \<Rightarrow>
   (string \<times> CalendarFreeBusy) list \<times> FreeBusyError list \<times> BusySlot list" where
  "settleFreeBusy params [] acc = acc"
| "settleFreeBusy params (provider # rest) (cals, errors, allBusySlots) =
     (case getFreeBusy provider params of
        Inr freeBusy \<Rightarrow>
          settleFreeBusy params rest
            (AList.update (cfCalendarId freeBusy) freeBusy cals, errors, allBusySlots @ busy freeBusy)
      | Inl reason \<Rightarrow>
          settleFreeBusy params rest
            (cals,
             errors @ [\<lparr>feProvider = providerType provider,
                         feCalendarId = Some (providerId provider),
                         feMessage = reasonMessage reason\<rparr>],
             allBusySlots))"

text \<open>\<^verbatim>\<open>params.providers && params.providers.length > 0\<close>, then the filter.\<close>

definition selectProviders :: "ProviderType list option \<Rightarrow> Provider list \<Rightarrow> Provider list" where
  "selectProviders types providers =
     (case types of
        None \<Rightarrow> providers
      | Some ts \<Rightarrow> if ts \<noteq> [] then filter (\<lambda>p. providerType p \<in> set ts) providers else providers)"

text \<open>
  \<^verbatim>\<open>getAggregatedFreeBusy\<close>; \<open>registry\<close> is \<^verbatim>\<open>registry.getConnected()\<close>.
\<close>

definition getAggregatedFreeBusy ::
  "WorkingHours \<Rightarrow> Provider list \<Rightarrow> FreeBusyParams \<Rightarrow> FreeBusyResponse" where
  "getAggregatedFreeBusy defaults registry params =
     (let providers = selectProviders (fbProviders params) registry in
      if providers = [] then
        \<lparr>calendars = [], unifiedBusy = [], unifiedFree = [], suggestedSlots = None, fbErrors = None\<rparr>
      else
        (case settleFreeBusy params providers ([], [], []) of
           (cals, errors, allBusySlots) \<Rightarrow>
             let mergedBusy = mergeBusySlots allBusySlots;
                 rangeStart = fbStartTime params;
                 rangeEnd = fbEndTime params;
                 freeSlots0 = computeFreeSlots mergedBusy rangeStart rangeEnd;
                 freeSlots = (if workingHoursOnly params = Some True
                              then filterToWorkingHours defaults freeSlots0 rangeStart rangeEnd
                                     (workingHours params)
                              else freeSlots0);
                 suggested = (case slotDuration params of
                                None \<Rightarrow> None
                              | Some d \<Rightarrow> if d \<noteq> 0 \<and> d > 0
                                          then Some (findSuggestedSlots freeSlots d) else None)
             in \<lparr>calendars = cals, unifiedBusy = mergedBusy, unifiedFree = freeSlots,
                 suggestedSlots = suggested,
                 fbErrors = (if length errors > 0 then Some errors else None)\<rparr>))"

section \<open>Calendar orchestrator (services/calendar-service.ts)\<close>

record ProviderError =
  peProvider :: ProviderType
  peProviderId :: string
  peCode :: string
  peMessage :: string
  peRetryable :: bool

record ListEventsResult =
  lrEvents :: "CalendarEvent list"
  lrErrors :: "ProviderError list option"
  partialSuccess :: bool

text \<open>The loop over the settled results of \<^verbatim>\<open>listAllEvents\<close>.\<close>

fun settleListEvents ::
  "ListEventsParams \<Rightarrow> Provider list \<Rightarrow> CalendarEvent list \<times> ProviderError list \<Rightarrow>
   CalendarEvent list \<times> ProviderError list" where
  "settleListEvents params [] acc = acc"
| "settleListEvents params (provider # rest) (evs, errors) =
     (case listEvents provider params of
        Inr result \<Rightarrow> settleListEvents params rest (evs @ result, errors)
      | Inl reason \<Rightarrow>
          settleListEvents params rest
            (evs,
             errors @ [\<lparr>peProvider = providerType provider,
                         peProviderId = providerId provider,
                         peCode = reasonCode reason,
                         peMessage = reasonMessage reason,
                         peRetryable = reasonRetryable reason\<rparr>]))"

definition listAllEvents :: "Provider list \<Rightarrow> ListEventsParams \<Rightarrow> ListEventsResult" where
  "listAllEvents registry params =
     (let providers = selectProviders (leProviders params) registry in
      if providers = [] then \<lparr>lrEvents = [], lrErrors = None, partialSuccess = False\<rparr>
      else
        (case settleListEvents params providers ([], []) of
           (evs, errors) \<Rightarrow>
             let sortedEvents = sort_key evStart evs;
                 limitedEvents = (case maxResults params of
                                    None \<Rightarrow> sortedEvents
                                  | Some n \<Rightarrow> if n \<noteq> 0 then take n sortedEvents
                                              else sortedEvents)
             in \<lparr>lrEvents = limitedEvents,
                 lrErrors = (if length errors > 0 then Some errors else None),
                 partialSuccess = (length errors > 0 \<and> length sortedEvents > 0)\<rparr>))"

section \<open>Conflict detector (class ConflictService, in services/free-busy-service.ts)\<close>

record CheckConflictsParams =
  ccStartTime :: millis
  ccEndTime :: millis
  excludeEventId :: "string option"
  excludeProvider :: "ProviderType option"

record Conflict =
  cId :: string
  cProvider :: ProviderType
  cCalendarId :: string
  cSubject :: string
  cStart :: millis
  cEnd :: millis
  cShowAs :: ShowAs

text \<open>
  The \<^verbatim>\<open>reason\<close> of a suggestion: \<^verbatim>\<open>'Next available slot today'\<close>, or the dated text, kept
  as the day it names.
\<close>

datatype Reason = NextAvailableToday | NextAvailableOn millis

record Suggestion =
  sgStart :: millis
  sgEnd :: millis
  sgReason :: Reason

record ConflictCheckResult =
  hasConflict :: bool
  conflicts :: "Conflict list"
  suggestion :: "Suggestion option"

text \<open>
  The \<^verbatim>\<open>while (cursor < searchEnd)\<close> loop of \<^verbatim>\<open>findAlternativeSlot\<close>. A busy slot is its
  (start, end) pair. The inner \<^verbatim>\<open>for\<close> loop stops at the first busy slot that overlaps the
  candidate window, which is what \<^const>\<open>find\<close> returns. The result is \<open>Some (Some s)\<close> when
  the loop returns the suggestion \<open>s\<close>, \<open>Some None\<close> when it returns \<^verbatim>\<open>undefined\<close>, and
  \<open>None\<close> when the loop does not return.
\<close>

partial_function (option) findAlternativeSlotLoop ::
  "millis \<Rightarrow> millis \<Rightarrow> millis \<Rightarrow> (millis \<times> millis) list \<Rightarrow> millis \<Rightarrow> Suggestion option option" where
  "findAlternativeSlotLoop proposedStart proposedEnd searchEnd busySlots cursor =
     (if cursor < searchEnd then
        (let slotEnd = cursor + (proposedEnd - proposedStart) in
         case find (\<lambda>b. cursor < snd b \<and> slotEnd > fst b) busySlots of
           None \<Rightarrow>
             Some (Some \<lparr>sgStart = cursor, sgEnd = slotEnd,
                         sgReason = (if startOfDay cursor = startOfDay proposedStart
                                     then NextAvailableToday
                                     else NextAvailableOn (startOfDay cursor))\<rparr>)
         | Some b \<Rightarrow>
             findAlternativeSlotLoop proposedStart proposedEnd searchEnd busySlots
               (if snd b \<le> proposedStart then proposedEnd else snd b))
      else Some None)"

text \<open>The busy times \<^verbatim>\<open>findAlternativeSlot\<close> derives from the events.\<close>

definition busyTimes :: "CalendarEvent list \<Rightarrow> (millis \<times> millis) list" where
  "busyTimes existingEvents =
     sort_key fst (map (\<lambda>e. (evStart e, evEnd e)) (filter (\<lambda>e. showAs e \<noteq> Free) existingEvents))"

definition findAlternativeSlot ::
  "millis \<Rightarrow> millis \<Rightarrow> CalendarEvent list \<Rightarrow> Suggestion option option" where
  "findAlternativeSlot proposedStart proposedEnd existingEvents =
     (let searchEnd = proposedStart + 7 * msPerDay;
          busySlots = busyTimes existingEvents
      in findAlternativeSlotLoop proposedStart proposedEnd searchEnd busySlots proposedStart)"

text \<open>
  The test that skips the excluded event; an empty \<^verbatim>\<open>excludeEventId\<close> is falsy, as an absent
  one.
\<close>

definition isExcluded :: "CheckConflictsParams \<Rightarrow> CalendarEvent \<Rightarrow> bool" where
  "isExcluded params event =
     (case excludeEventId params of
        None \<Rightarrow> False
      | Some x \<Rightarrow> x \<noteq> [] \<and> evId event = x \<and>
          (case excludeProvider params of None \<Rightarrow> True | Some p \<Rightarrow> evProvider event = p))"

definition isConflict :: "CheckConflictsParams \<Rightarrow> CalendarEvent \<Rightarrow> bool" where
  "isConflict params event =
     (if isExcluded params event then False
      else if showAs event = Free then False
      else rangesOverlap (ccStartTime params) (ccEndTime params) (evStart event) (evEnd event))"

definition toConflict :: "CalendarEvent \<Rightarrow> Conflict" where
  "toConflict event =
     \<lparr>cId = evId event, cProvider = evProvider event, cCalendarId = evCalendarId event,
      cSubject = subject event, cStart = evStart event, cEnd = evEnd event,
      cShowAs = showAs event\<rparr>"

text \<open>The \<^verbatim>\<open>listParams\<close> of \<^verbatim>\<open>checkConflicts\<close>: the proposed range with 60 minutes on each side.\<close>

definition conflictListParams :: "CheckConflictsParams \<Rightarrow> ListEventsParams" where
  "conflictListParams params =
     \<lparr>leStartTime = ccStartTime params - 60 * msPerMinute,
      leEndTime = ccEndTime params + 60 * msPerMinute,
      leProviders = None, leCalendarIds = None, searchQuery = None,
      expandRecurring = Some True, maxResults = None\<rparr>"

text \<open>
  \<^verbatim>\<open>checkConflicts\<close> once \<^verbatim>\<open>listAllEvents\<close> has returned \<open>evs\<close>; \<open>None\<close> when the search for an
  alternative does not return.
\<close>

definition checkConflictsOn ::
  "CalendarEvent list \<Rightarrow> CheckConflictsParams \<Rightarrow> ConflictCheckResult option" where
  "checkConflictsOn evs params =
     (let found = filter (isConflict params) evs;
          result = \<lparr>hasConflict = (length found > 0), conflicts = map toConflict found,
                    suggestion = None\<rparr>
      in if length found > 0
         then map_option (\<lambda>s. result\<lparr>suggestion := s\<rparr>)
                (findAlternativeSlot (ccStartTime params) (ccEndTime params) evs)
         else Some result)"

definition checkConflicts ::
  "Provider list \<Rightarrow> CheckConflictsParams \<Rightarrow> ConflictCheckResult option" where
  "checkConflicts registry params =
     checkConflictsOn (lrEvents (listAllEvents registry (conflictListParams params))) params"

section \<open>Cross-provider synchronizer (class SyncService, in unnamed/part_004)\<close>

datatype MatchConfidence = High | Medium | Low

text \<open>
  The \<^verbatim>\<open>details\<close> strings of a match factor, kept as their template and number:
  \<^verbatim>\<open>'N% similar'\<close>, \<^verbatim>\<open>'one or both missing'\<close>, \<^verbatim>\<open>'exact'\<close>, \<^verbatim>\<open>'Nmin difference'\<close>, \<^verbatim>\<open>'same'\<close>,
  \<^verbatim>\<open>'different'\<close>, \<^verbatim>\<open>'exact match'\<close>.
\<close>

datatype Details =
  PercentSimilar int | OneOrBothMissing | Exact | MinDifference int | Same | Different | ExactMatch

record MatchFactor =
  factor :: string
  weight :: real
  matched :: bool
  details :: Details

record EventMatch =
  sourceEvent :: CalendarEvent
  targetEvent :: CalendarEvent
  confidence :: MatchConfidence
  matchFactors :: "MatchFactor list"
  score :: real

text \<open>
  \<^verbatim>\<open>toLowerCase\<close> and \<^verbatim>\<open>trim\<close> on ASCII text: the letters A to Z are mapped, and tab, line
  feed, vertical tab, form feed, carriage return and space are white space.
\<close>

definition toLowerCase :: "string \<Rightarrow> string" where
  "toLowerCase s =
     map (\<lambda>c. if 65 \<le> (of_char c :: nat) \<and> (of_char c :: nat) \<le> 90
               then char_of ((of_char c :: nat) + 32) else c) s"

definition isWhiteSpace :: "char \<Rightarrow> bool" where
  "isWhiteSpace c = ((of_char c :: nat) \<in> {9, 10, 11, 12, 13, 32})"

definition trim :: "string \<Rightarrow> string" where
  "trim s = rev (dropWhile isWhiteSpace (rev (dropWhile isWhiteSpace s)))"

text \<open>
  The entry \<^verbatim>\<open>matrix[i][j]\<close> of the table that \<^verbatim>\<open>fuzzyMatch\<close> fills row by row: the first
  column holds \<open>i\<close>, the first row holds \<open>j\<close>, and every other entry is the minimum of its
  three neighbours' values as the inner loop computes it.
\<close>

fun matrix :: "string \<Rightarrow> string \<Rightarrow> nat \<Rightarrow> nat \<Rightarrow> nat" where
  "matrix s1 s2 0 j = j"
| "matrix s1 s2 (Suc i) 0 = Suc i"
| "matrix s1 s2 (Suc i) (Suc j) =
     (let cost = (if s1 ! i = s2 ! j then 0 else 1) in
      min (min (matrix s1 s2 i (Suc j) + 1) (matrix s1 s2 (Suc i) j + 1))
          (matrix s1 s2 i j + cost))"

definition fuzzyMatch :: "string \<Rightarrow> string \<Rightarrow> real" where
  "fuzzyMatch str1 str2 =
     (if str1 = [] \<and> str2 = [] then 1
      else if str1 = [] \<or> str2 = [] then 0
      else
        let s1 = trim (toLowerCase str1);
            s2 = trim (toLowerCase str2)
        in if s1 = s2 then 1
           else
             let len1 = length s1;
                 len2 = length s2
             in if len1 = 0 then 0
                else if len2 = 0 then 0
                else
                  let distance = matrix s1 s2 len1 len2;
                      maxLen = max len1 len2
                  in 1 - real distance / real maxLen)"

text \<open>Truthiness of an optional string, and \<^verbatim>\<open>x ?? ''\<close>.\<close>

definition truthy :: "string option \<Rightarrow> bool" where
  "truthy x = (case x of None \<Rightarrow> False | Some s \<Rightarrow> s \<noteq> [])"

definition orEmpty :: "string option \<Rightarrow> string" where
  "orEmpty x = (case x of None \<Rightarrow> [] | Some s \<Rightarrow> s)"

text \<open>\<^verbatim>\<open>Math.round\<close> of a real number.\<close>

definition mathRound :: "real \<Rightarrow> int" where
  "mathRound x = \<lfloor>x + 1 / 2\<rfloor>"

text \<open>
  One factor block of \<^verbatim>\<open>calculateMatch\<close>: \<^verbatim>\<open>factors.push(f)\<close>, \<^verbatim>\<open>totalWeight += weight\<close>,
  \<^verbatim>\<open>matchedWeight += weight * factorScore\<close>.
\<close>

definition addFactor ::
  "MatchFactor list \<times> real \<times> real \<Rightarrow> MatchFactor \<Rightarrow> real \<Rightarrow> MatchFactor list \<times> real \<times> real" where
  "addFactor acc f factorScore =
     (case acc of (factors, totalWeight, matchedWeight) \<Rightarrow>
        (factors @ [f], totalWeight + weight f, matchedWeight + weight f * factorScore))"

definition timeScore :: "int \<Rightarrow> real" where
  "timeScore diff = (if diff \<le> 60000 then 1 else if diff \<le> 300000 then 1 / 2 else 0)"

definition subjectFactor :: "CalendarEvent \<Rightarrow> CalendarEvent \<Rightarrow> MatchFactor \<times> real" where
  "subjectFactor source target =
     (let subjectMatched = fuzzyMatch (subject source) (subject target) in
      (\<lparr>factor = ''subject'', weight = 30, matched = (subjectMatched \<ge> 8 / 10),
        details = PercentSimilar (mathRound (subjectMatched * 100))\<rparr>, subjectMatched))"

definition startFactor :: "CalendarEvent \<Rightarrow> CalendarEvent \<Rightarrow> MatchFactor \<times> real" where
  "startFactor source target =
     (let startDiff = \<bar>evStart source - evStart target\<bar>;
          startMatched = (startDiff \<le> 60000)
      in (\<lparr>factor = ''startTime'', weight = 25, matched = startMatched,
           details = (if startMatched then Exact else MinDifference (roundDiv startDiff 60000))\<rparr>,
          timeScore startDiff))"

definition endFactor :: "CalendarEvent \<Rightarrow> CalendarEvent \<Rightarrow> MatchFactor \<times> real" where
  "endFactor source target =
     (let endDiff = \<bar>evEnd source - evEnd target\<bar>;
          endMatched = (endDiff \<le> 60000)
      in (\<lparr>factor = ''endTime'', weight = 20, matched = endMatched,
           details = (if endMatched then Exact else MinDifference (roundDiv endDiff 60000))\<rparr>,
          timeScore endDiff))"

definition locationFactor :: "CalendarEvent \<Rightarrow> CalendarEvent \<Rightarrow> MatchFactor \<times> real" where
  "locationFactor source target =
     (let locationMatched = fuzzyMatch (orEmpty (location source)) (orEmpty (location target)) in
      (\<lparr>factor = ''location'', weight = 10, matched = (locationMatched \<ge> 8 / 10),
        details = (if truthy (location source) \<and> truthy (location target)
                   then PercentSimilar (mathRound (locationMatched * 100))
                   else OneOrBothMissing)\<rparr>,
       locationMatched))"

definition allDayFactor :: "CalendarEvent \<Rightarrow> CalendarEvent \<Rightarrow> MatchFactor \<times> real" where
  "allDayFactor source target =
     (let allDayMatched = (isAllDay source = isAllDay target) in
      (\<lparr>factor = ''isAllDay'', weight = 10, matched = allDayMatched,
        details = (if allDayMatched then Same else Different)\<rparr>,
       if allDayMatched then 1 else 0))"

definition icalFactor :: "CalendarEvent \<Rightarrow> CalendarEvent \<Rightarrow> MatchFactor \<times> real" where
  "icalFactor source target =
     (let icalMatched = (iCalUId source = iCalUId target) in
      (\<lparr>factor = ''iCalUId'', weight = 5, matched = icalMatched,
        details = (if icalMatched then ExactMatch else Different)\<rparr>,
       if icalMatched then 1 else 0))"

text \<open>
  The accumulation of \<^verbatim>\<open>calculateMatch\<close>: the triple (\<^verbatim>\<open>factors\<close>, \<^verbatim>\<open>totalWeight\<close>,
  \<^verbatim>\<open>matchedWeight\<close>) after the six factor blocks, two of them conditional.
\<close>

definition matchTotals :: "CalendarEvent \<Rightarrow> CalendarEvent \<Rightarrow> MatchFactor list \<times> real \<times> real" where
  "matchTotals source target =
     (let acc = ([], 0, 0);
          acc = (case subjectFactor source target of (f, s) \<Rightarrow> addFactor acc f s);
          acc = (case startFactor source target of (f, s) \<Rightarrow> addFactor acc f s);
          acc = (case endFactor source target of (f, s) \<Rightarrow> addFactor acc f s);
          acc = (if truthy (location source) \<or> truthy (location target)
                 then (case locationFactor source target of (f, s) \<Rightarrow> addFactor acc f s)
                 else acc);
          acc = (case allDayFactor source target of (f, s) \<Rightarrow> addFactor acc f s);
          acc = (if truthy (iCalUId source) \<and> truthy (iCalUId target)
                 then (case icalFactor source target of (f, s) \<Rightarrow> addFactor acc f s)
                 else acc)
      in acc)"

definition confidenceOf :: "real \<Rightarrow> MatchConfidence" where
  "confidenceOf sc = (if sc \<ge> 8 / 10 then High else if sc \<ge> 5 / 10 then Medium else Low)"

definition calculateMatch :: "CalendarEvent \<Rightarrow> CalendarEvent \<Rightarrow> EventMatch" where
  "calculateMatch source target =
     (case matchTotals source target of (factors, totalWeight, matchedWeight) \<Rightarrow>
        let sc = (if totalWeight > 0 then matchedWeight / totalWeight else 0)
        in \<lparr>sourceEvent = source, targetEvent = target, confidence = confidenceOf sc,
            matchFactors = factors, score = sc\<rparr>)"

record SyncParams =
  sourceProvider :: ProviderType
  sourceCalendarId :: "string option"
  targetProvider :: ProviderType
  targetCalendarId :: "string option"
  spStartTime :: millis
  spEndTime :: millis
  minConfidence :: "MatchConfidence option"

text \<open>The two \<^verbatim>\<open>listAllEvents\<close> requests that both synchronizer operations start with.\<close>

definition syncListParams :: "ProviderType \<Rightarrow> string option \<Rightarrow> SyncParams \<Rightarrow> ListEventsParams" where
  "syncListParams provider calendarId params =
     \<lparr>leStartTime = spStartTime params, leEndTime = spEndTime params,
      leProviders = Some [provider],
      leCalendarIds = (if truthy calendarId then Some [orEmpty calendarId] else None),
      searchQuery = None, expandRecurring = None, maxResults = None\<rparr>"

definition sourceEventsOf :: "Provider list \<Rightarrow> SyncParams \<Rightarrow> CalendarEvent list" where
  "sourceEventsOf registry params =
     lrEvents (listAllEvents registry
       (syncListParams (sourceProvider params) (sourceCalendarId params) params))"

definition targetEventsOf :: "Provider list \<Rightarrow> SyncParams \<Rightarrow> CalendarEvent list" where
  "targetEventsOf registry params =
     lrEvents (listAllEvents registry
       (syncListParams (targetProvider params) (targetCalendarId params) params))"




text \<open>
  The inner loop of \<^verbatim>\<open>compareCalendars\<close> for one source event \<open>src\<close>: \<open>matchedTargetIds\<close>
  is the set of claimed target ids, \<open>bestMatch\<close> the best match so far.
\<close>

fun bestMatchLoop ::
  "CalendarEvent \<Rightarrow> string set \<Rightarrow> CalendarEvent list \<Rightarrow> EventMatch option \<Rightarrow> EventMatch option" where
  "bestMatchLoop src matchedTargetIds [] bestMatch = bestMatch"
| "bestMatchLoop src matchedTargetIds (tgt # rest) bestMatch =
     (if evId tgt \<in> matchedTargetIds
      then bestMatchLoop src matchedTargetIds rest bestMatch
      else
        let matchResult = calculateMatch src tgt in
        if score matchResult \<ge> 5 / 10 \<and>
           (case bestMatch of None \<Rightarrow> True | Some b \<Rightarrow> score matchResult > score b)
        then bestMatchLoop src matchedTargetIds rest (Some matchResult)
        else bestMatchLoop src matchedTargetIds rest bestMatch)"

text \<open>
  The outer loop, with \<^verbatim>\<open>matches\<close> (\<open>ms\<close>), \<^verbatim>\<open>matchedSourceIds\<close> and \<^verbatim>\<open>matchedTargetIds\<close>.
\<close>

fun compareLoop ::
  "CalendarEvent list \<Rightarrow> CalendarEvent list \<Rightarrow> EventMatch list \<times> string set \<times> string set \<Rightarrow>
   EventMatch list \<times> string set \<times> string set" where
  "compareLoop [] targetEvents acc = acc"
| "compareLoop (src # rest) targetEvents (ms, matchedSourceIds, matchedTargetIds) =
     (case bestMatchLoop src matchedTargetIds targetEvents None of
        None \<Rightarrow> compareLoop rest targetEvents (ms, matchedSourceIds, matchedTargetIds)
      | Some bestMatch \<Rightarrow>
          compareLoop rest targetEvents
            (ms @ [bestMatch],
             insert (evId src) matchedSourceIds,
             insert (evId (targetEvent bestMatch)) matchedTargetIds))"

record Statistics =
  totalSourceEvents :: nat
  totalTargetEvents :: nat
  matchedCount :: nat
  sourceOnlyCount :: nat
  targetOnlyCount :: nat

record CalendarComparison =
  cmpSourceCalendarId :: string
  cmpTargetCalendarId :: string
  cmpSourceProvider :: ProviderType
  cmpTargetProvider :: ProviderType
  timeRange :: "millis \<times> millis"
  matches :: "EventMatch list"
  sourceOnly :: "CalendarEvent list"
  targetOnly :: "CalendarEvent list"
  statistics :: Statistics

text \<open>\<^verbatim>\<open>compareCalendars\<close> once both event lists are there.\<close>

definition compareEvents ::
  "SyncParams \<Rightarrow> CalendarEvent list \<Rightarrow> CalendarEvent list \<Rightarrow> CalendarComparison" where
  "compareEvents params sourceEvents targetEvents =
     (case compareLoop sourceEvents targetEvents ([], {}, {}) of
        (ms, matchedSourceIds, matchedTargetIds) \<Rightarrow>
          let srcOnly = filter (\<lambda>e. evId e \<notin> matchedSourceIds) sourceEvents;
              tgtOnly = filter (\<lambda>e. evId e \<notin> matchedTargetIds) targetEvents
          in \<lparr>cmpSourceCalendarId =
                 (case sourceCalendarId params of None \<Rightarrow> ''primary'' | Some c \<Rightarrow> c),
              cmpTargetCalendarId =
                 (case targetCalendarId params of None \<Rightarrow> ''primary'' | Some c \<Rightarrow> c),
              cmpSourceProvider = sourceProvider params,
              cmpTargetProvider = targetProvider params,
              timeRange = (spStartTime params, spEndTime params),
              matches = ms, sourceOnly = srcOnly, targetOnly = tgtOnly,
              statistics =
                \<lparr>totalSourceEvents = length sourceEvents,
                 totalTargetEvents = length targetEvents,
                 matchedCount = length ms,
                 sourceOnlyCount = length srcOnly,
                 targetOnlyCount = length tgtOnly\<rparr>\<rparr>)"

definition compareCalendars :: "Provider list \<Rightarrow> SyncParams \<Rightarrow> CalendarComparison" where
  "compareCalendars registry params =
     compareEvents params (sourceEventsOf registry params) (targetEventsOf registry params)"

section \<open>Auxiliary notions for the properties\<close>

text \<open>The suggestion that \<open>findSuggestedSlots\<close> makes of a free slot, for the duration \<open>d\<close>.\<close>

definition suggestionOf :: "int \<Rightarrow> FreeSlot \<Rightarrow> FreeSlot" where
  "suggestionOf d slot =
     \<lparr>fsStart = fsStart slot, fsEnd = fsStart slot + d * msPerMinute, durationMinutes = d\<rparr>"

text \<open>
  The factor blocks of \<open>calculateMatch\<close> that are executed for a pair of events, each with
  the factor score it contributes, in the order of the source.
\<close>

definition factorScores :: "CalendarEvent \<Rightarrow> CalendarEvent \<Rightarrow> (MatchFactor \<times> real) list" where
  "factorScores source target =
     [subjectFactor source target, startFactor source target, endFactor source target]
     @ (if truthy (location source) \<or> truthy (location target)
        then [locationFactor source target] else [])
     @ [allDayFactor source target]
     @ (if truthy (iCalUId source) \<and> truthy (iCalUId target)
        then [icalFactor source target] else [])"

text \<open>
  The candidate window from \<open>cursor\<close> to \<open>slotEnd\<close> overlaps no busy slot, by the test of
  the search loop (which is \<open>rangesOverlap\<close>).
\<close>

definition windowFree :: "(millis \<times> millis) list \<Rightarrow> millis \<Rightarrow> millis \<Rightarrow> bool" where
  "windowFree busySlots cursor slotEnd =
     list_all (\<lambda>b. \<not> rangesOverlap cursor slotEnd (fst b) (snd b)) busySlots"

text \<open>
  Where the walk goes from \<open>cursor\<close>: to the end of the first busy slot (in the order of
  the list) that overlaps the window of length \<open>d\<close> at \<open>cursor\<close>; it stays when none does.
\<close>

definition jumpCursor :: "(millis \<times> millis) list \<Rightarrow> int \<Rightarrow> millis \<Rightarrow> millis" where
  "jumpCursor busySlots d cursor =
     (case find (\<lambda>b. rangesOverlap cursor (cursor + d) (fst b) (snd b)) busySlots of
        None \<Rightarrow> cursor
      | Some b \<Rightarrow> snd b)"

text \<open>The suggestion that the search returns for a free window starting at \<open>cursor\<close>.\<close>

definition suggestionAt :: "millis \<Rightarrow> millis \<Rightarrow> millis \<Rightarrow> Suggestion" where
  "suggestionAt proposedStart proposedEnd cursor =
     \<lparr>sgStart = cursor, sgEnd = cursor + (proposedEnd - proposedStart),
      sgReason = (if startOfDay cursor = startOfDay proposedStart then NextAvailableToday
                  else NextAvailableOn (startOfDay cursor))\<rparr>"

text \<open>
  The \<open>k\<close>-th candidate start of the search: \<open>k\<close> jumps away from \<open>proposedStart\<close>, over
  the busy times of the events.
\<close>

definition candidateStart :: "millis \<Rightarrow> millis \<Rightarrow> CalendarEvent list \<Rightarrow> nat \<Rightarrow> millis" where
  "candidateStart proposedStart proposedEnd evs k =
     (jumpCursor (busyTimes evs) (proposedEnd - proposedStart) ^^ k) proposedStart"


text \<open>
  The error entry that a provider's rejected \<open>getFreeBusy\<close> call contributes, and the busy
  slots that a fulfilled one contributes.
\<close>

definition freeBusyError :: "FreeBusyParams \<Rightarrow> Provider \<Rightarrow> FreeBusyError option" where
  "freeBusyError params p =
     (case getFreeBusy p params of
        Inl reason \<Rightarrow> Some \<lparr>feProvider = providerType p, feCalendarId = Some (providerId p),
                            feMessage = reasonMessage reason\<rparr>
      | Inr freeBusy \<Rightarrow> None)"

definition busyOf :: "FreeBusyParams \<Rightarrow> Provider \<Rightarrow> BusySlot list" where
  "busyOf params p = (case getFreeBusy p params of Inl reason \<Rightarrow> [] | Inr freeBusy \<Rightarrow> busy freeBusy)"

text \<open>The score of a source event with a target event.\<close>

definition pairScore :: "CalendarEvent \<Rightarrow> CalendarEvent \<Rightarrow> real" where
  "pairScore s t = score (calculateMatch s t)"

text \<open>
  \<open>isGreedy sources avail ps\<close>: the pairs \<open>ps\<close> are a greedy, first-come-first-served
  assignment of the available targets to the source events, taken in order. A source
  event is passed over only when no available target scores at least 0.5 with it;
  otherwise it is paired with an available target whose score is at least 0.5 and is not
  exceeded by that of any available target, and that target is no longer available to the
  source events after it.
\<close>

fun isGreedy ::
  "CalendarEvent list \<Rightarrow> CalendarEvent list \<Rightarrow> (CalendarEvent \<times> CalendarEvent) list \<Rightarrow> bool" where
  "isGreedy [] avail ps = (ps = [])"
| "isGreedy (s # rest) avail ps =
     ((list_all (\<lambda>t. pairScore s t < 1 / 2) avail \<and> isGreedy rest avail ps)
      \<or> (case ps of
            [] \<Rightarrow> False
          | (s', t) # ps' \<Rightarrow>
              s' = s \<and> t \<in> set avail \<and> 1 / 2 \<le> pairScore s t
              \<and> list_all (\<lambda>t'. pairScore s t' \<le> pairScore s t) avail
              \<and> isGreedy rest (remove1 t avail) ps'))"

text \<open>The (source, target) pairs of a list of matches.\<close>

definition pairsOf :: "EventMatch list \<Rightarrow> (CalendarEvent \<times> CalendarEvent) list" where
  "pairsOf ms = map (\<lambda>m. (sourceEvent m, targetEvent m)) ms"

text \<open>A valid interval of positive length.\<close>

definition positive :: "Interval \<Rightarrow> bool" where
  "positive i = (isValid i \<and> ivStart i < ivEnd i)"

text \<open>The instant \<open>t\<close> lies in one of the intervals, each taken half-open.\<close>

definition covers :: "Interval list \<Rightarrow> millis \<Rightarrow> bool" where
  "covers L t = (\<exists>i \<in> set L. isValid i \<and> ivStart i \<le> t \<and> t < ivEnd i)"


text \<open>
  The status of a coalesced slot, in the words of the status-merge rule: busy if either
  slot is busy, otherwise the status of the incoming slot.
\<close>

definition mergedStatus :: "BusyStatus \<Rightarrow> BusyStatus \<Rightarrow> BusyStatus" where
  "mergedStatus cur incoming = (if cur = Busy \<or> incoming = Busy then Busy else incoming)"

text \<open>
  Coalescing by that rule, along a list of slots in start order: an incoming slot that
  starts no later than the current slot ends is merged into it (the current slot keeps
  its start, takes the later end and the merged status); any other incoming slot closes
  the current slot and becomes the current one.
\<close>

fun coalesce :: "BusySlot \<Rightarrow> BusySlot list \<Rightarrow> BusySlot list" where
  "coalesce cur [] = [cur]"
| "coalesce cur (incoming # rest) =
     (if bsStart incoming \<le> bsEnd cur
      then coalesce (cur\<lparr>bsEnd := max (bsEnd cur) (bsEnd incoming),
                         bsStatus := mergedStatus (bsStatus cur) (bsStatus incoming)\<rparr>) rest
      else cur # coalesce incoming rest)"

section \<open>Concrete inputs\<close>

text \<open>Inputs on which the definitions above are evaluated further down.\<close>

definition slotA :: BusySlot where
  "slotA = \<lparr>bsStart = 0, bsEnd = 3600000, bsStatus = Tentative,
            eventSubject = None, eventId = None\<rparr>"

definition slotB :: BusySlot where
  "slotB = \<lparr>bsStart = 1800000, bsEnd = 5400000, bsStatus = Oof,
            eventSubject = None, eventId = None\<rparr>"

definition eventA :: CalendarEvent where
  "eventA = \<lparr>evId = ''a1'', evProvider = Google, evCalendarId = ''primary'',
             subject = ''Sync '', evStart = 0, evEnd = 3600000, isAllDay = False,
             showAs = ShowBusy, location = Some ''Room 1'', iCalUId = None\<rparr>"

definition eventB :: CalendarEvent where
  "eventB = \<lparr>evId = ''b1'', evProvider = Microsoft, evCalendarId = ''primary'',
             subject = ''Sink'', evStart = 0, evEnd = 3720000, isAllDay = False,
             showAs = ShowBusy, location = None, iCalUId = None\<rparr>"

definition walkEvents :: "CalendarEvent list" where
  "walkEvents =
     [\<lparr>evId = ''w1'', evProvider = Google, evCalendarId = ''primary'', subject = ''Standup'',
       evStart = 0, evEnd = 1800000, isAllDay = False, showAs = ShowBusy,
       location = None, iCalUId = None\<rparr>,
      \<lparr>evId = ''w2'', evProvider = Google, evCalendarId = ''primary'', subject = ''Lunch'',
       evStart = 1800000, evEnd = 5400000, isAllDay = False, showAs = Free,
       location = None, iCalUId = None\<rparr>,
      \<lparr>evId = ''w3'', evProvider = Google, evCalendarId = ''primary'', subject = ''Review'',
       evStart = 3000000, evEnd = 4000000, isAllDay = False, showAs = ShowTentative,
       location = None, iCalUId = None\<rparr>]"

definition proposal :: CheckConflictsParams where
  "proposal = \<lparr>ccStartTime = 50400000, ccEndTime = 54000000,
               excludeEventId = None, excludeProvider = None\<rparr>"

definition busyMeeting :: CalendarEvent where
  "busyMeeting = \<lparr>evId = ''m1'', evProvider = Google, evCalendarId = ''primary'',
       subject = ''Planning'', evStart = 50400000, evEnd = 52200000, isAllDay = False,
       showAs = ShowBusy, location = None, iCalUId = None\<rparr>"

definition freeMeeting :: CalendarEvent where
  "freeMeeting = busyMeeting\<lparr>showAs := Free\<rparr>"

definition providerWith :: "ProviderType \<Rightarrow> string \<Rightarrow> CalendarEvent list \<Rightarrow> Provider" where
  "providerWith t name evs =
     \<lparr>providerType = t, providerId = name,
      getFreeBusy = (\<lambda>q. Inr \<lparr>cfProvider = t, cfCalendarId = name, calendarName = name, busy = []\<rparr>),
      listEvents = (\<lambda>q. Inr evs)\<rparr>"

definition movedMeeting :: CalendarEvent where
  "movedMeeting = \<lparr>evId = ''x1'', evProvider = Google, evCalendarId = ''primary'',
       subject = ''Moved'', evStart = 54000000, evEnd = 57600000, isAllDay = False,
       showAs = ShowBusy, location = None, iCalUId = None\<rparr>"

definition otherMeeting :: CalendarEvent where
  "otherMeeting = \<lparr>evId = ''y1'', evProvider = Google, evCalendarId = ''primary'',
       subject = ''Other'', evStart = 50400000, evEnd = 54000000, isAllDay = False,
       showAs = ShowBusy, location = None, iCalUId = None\<rparr>"

definition reschedule :: CheckConflictsParams where
  "reschedule = \<lparr>ccStartTime = 52200000, ccEndTime = 55800000,
                 excludeEventId = Some ''x1'', excludeProvider = Some Google\<rparr>"

definition failingProvider :: Provider where
  "failingProvider =
     \<lparr>providerType = Google, providerId = ''google-work'',
      getFreeBusy = (\<lambda>q. Inl (Error ''timeout'')),
      listEvents = (\<lambda>q. Inl (Error ''timeout''))\<rparr>"

definition syncRequest :: SyncParams where
  "syncRequest = \<lparr>sourceProvider = Google, sourceCalendarId = None,
                  targetProvider = Microsoft, targetCalendarId = None,
                  spStartTime = 0, spEndTime = 86400000, minConfidence = None\<rparr>"

definition officeHours :: WorkingHours where
  "officeHours = \<lparr>whStart = (9, 0), whEnd = (17, 0),
                  whDays = [''monday'', ''tuesday'', ''wednesday'', ''thursday'', ''friday'']\<rparr>"

definition workCalendar :: CalendarFreeBusy where
  "workCalendar = \<lparr>cfProvider = Microsoft, cfCalendarId = ''cal-ms'', calendarName = ''Work'',
                   busy = [\<lparr>bsStart = 3600000, bsEnd = 7200000, bsStatus = Busy,
                            eventSubject = None, eventId = None\<rparr>]\<rparr>"

definition workProvider :: Provider where
  "workProvider = \<lparr>providerType = Microsoft, providerId = ''ms-work'',
                   getFreeBusy = (\<lambda>q. Inr workCalendar),
                   listEvents = (\<lambda>q. Inr [])\<rparr>"

definition morning :: FreeBusyParams where
  "morning = \<lparr>fbStartTime = 0, fbEndTime = 10800000, fbProviders = None, fbCalendarIds = None,
              slotDuration = None, workingHoursOnly = None, workingHours = None\<rparr>"

definition standup :: "string \<Rightarrow> ProviderType \<Rightarrow> string \<Rightarrow> millis \<Rightarrow> CalendarEvent" where
  "standup ident provider cal endTime =
     \<lparr>evId = ident, evProvider = provider, evCalendarId = cal, subject = ''Standup'',
      evStart = 0, evEnd = endTime, isAllDay = False, showAs = ShowBusy,
      location = None, iCalUId = None\<rparr>"

definition hourSlots :: "FreeSlot list" where
  "hourSlots =
     [\<lparr>fsStart = 0, fsEnd = 3600000, durationMinutes = 60\<rparr>,
      \<lparr>fsStart = 7200000, fsEnd = 8100000, durationMinutes = 15\<rparr>,
      \<lparr>fsStart = 10800000, fsEnd = 14400000, durationMinutes = 60\<rparr>,
      \<lparr>fsStart = 18000000, fsEnd = 21600000, durationMinutes = 60\<rparr>,
      \<lparr>fsStart = 25200000, fsEnd = 27000000, durationMinutes = 30\<rparr>,
      \<lparr>fsStart = 28800000, fsEnd = 32400000, durationMinutes = 60\<rparr>,
      \<lparr>fsStart = 36000000, fsEnd = 39600000, durationMinutes = 60\<rparr>]"

definition tentativeLate :: BusySlot where
  "tentativeLate = \<lparr>bsStart = 5, bsEnd = 20, bsStatus = Tentative,
                    eventSubject = None, eventId = None\<rparr>"

definition oofEarly :: BusySlot where
  "oofEarly = \<lparr>bsStart = 0, bsEnd = 10, bsStatus = Oof, eventSubject = None, eventId = None\<rparr>"

definition halfMinuteBusy :: CalendarFreeBusy where
  "halfMinuteBusy = \<lparr>cfProvider = Microsoft, cfCalendarId = ''cal-ms'', calendarName = ''Work'',
                     busy = [\<lparr>bsStart = 1770000, bsEnd = 3600000, bsStatus = Busy,
                              eventSubject = None, eventId = None\<rparr>]\<rparr>"

definition halfMinuteProvider :: Provider where
  "halfMinuteProvider = \<lparr>providerType = Microsoft, providerId = ''ms-work'',
                         getFreeBusy = (\<lambda>q. Inr halfMinuteBusy),
                         listEvents = (\<lambda>q. Inr [])\<rparr>"

definition firstHour :: FreeBusyParams where
  "firstHour = \<lparr>fbStartTime = 0, fbEndTime = 3600000, fbProviders = None, fbCalendarIds = None,
                slotDuration = Some 30, workingHoursOnly = None, workingHours = None\<rparr>"

section \<open>Suggested slots\<close>

lemma findSuggestedSlotsLoop_take:
  "length acc < m \<Longrightarrow>
   findSuggestedSlotsLoop slots d m acc =
     acc @ take (m - length acc) (map (suggestionOf d) (filter (\<lambda>s. d \<le> durationMinutes s) slots))"
proof (induction slots arbitrary: acc)
  case Nil
  then show ?case by simp
next
  case (Cons slot rest)
  show ?case
  proof (cases "d \<le> durationMinutes slot")
    case False
    with Cons show ?thesis by simp
  next
    case long: True
    show ?thesis
    proof (cases "m \<le> Suc (length acc)")
      case True
      with Cons.prems have "m - length acc = Suc 0" by simp
      with long True show ?thesis by (simp add: suggestionOf_def Let_def)
    next
      case False
      then have lt: "length (acc @ [suggestionOf d slot]) < m" by simp
      have "m - length acc = Suc (m - length (acc @ [suggestionOf d slot]))"
        using False by simp
      with long False Cons.IH [OF lt] show ?thesis
        by (simp add: suggestionOf_def Let_def)
    qed
  qed
qed

text \<open>
  For every list of free slots and every duration \<open>d\<close>, \<open>findSuggestedSlots\<close> returns the
  first five (at most) of the free slots whose \<open>durationMinutes\<close> field is at least \<open>d\<close>,
  in order, each replaced by the slot that starts where the free slot starts, ends \<open>d\<close>
  minutes later and has duration \<open>d\<close>. In particular there are never more than five.
\<close>

lemma findSuggestedSlots_first_five:
  "findSuggestedSlots freeSlots d =
     take 5 (map (suggestionOf d) (filter (\<lambda>s. d \<le> durationMinutes s) freeSlots))
   \<and> length (findSuggestedSlots freeSlots d) \<le> 5"
proof -
  have "findSuggestedSlots freeSlots d =
     take 5 (map (suggestionOf d) (filter (\<lambda>s. d \<le> durationMinutes s) freeSlots))"
    unfolding findSuggestedSlots_def
    using findSuggestedSlotsLoop_take [of "[]" 5 freeSlots d] by simp
  then show ?thesis by simp
qed

lemma findSuggestedSlots_first_five_example:
  "findSuggestedSlots hourSlots 30
     = [\<lparr>fsStart = 0, fsEnd = 1800000, durationMinutes = 30\<rparr>,
        \<lparr>fsStart = 10800000, fsEnd = 12600000, durationMinutes = 30\<rparr>,
        \<lparr>fsStart = 18000000, fsEnd = 19800000, durationMinutes = 30\<rparr>,
        \<lparr>fsStart = 25200000, fsEnd = 27000000, durationMinutes = 30\<rparr>,
        \<lparr>fsStart = 28800000, fsEnd = 30600000, durationMinutes = 30\<rparr>]"
  using findSuggestedSlots_first_five [of hourSlots 30]
  by (simp add: hourSlots_def suggestionOf_def msPerMinute_def)

text \<open>
  C9. The claim has every suggestion start a free slot that lasts at least \<open>d\<close> and be that
  slot cut to \<open>d\<close> minutes, shorter slots being skipped. \<open>findSuggestedSlots\<close> compares \<open>d\<close>
  with the \<open>durationMinutes\<close> field, which \<open>computeFreeSlots\<close> rounds to whole minutes. With
  one busy slot from 00:29:30 to 01:00:00 in the range from 00:00:00 to 01:00:00 and a
  requested duration of 30 minutes, the free slot lasts 29.5 minutes and carries
  \<open>durationMinutes = 30\<close>; it is not skipped, and the suggestion from 00:00:00 to 00:30:00
  runs past the end of the free slot into the busy slot.
\<close>

theorem findSuggestedSlots_rounded_overrun:
  "unifiedBusy (getAggregatedFreeBusy officeHours [halfMinuteProvider] firstHour)
     = [\<lparr>bsStart = 1770000, bsEnd = 3600000, bsStatus = Busy, eventSubject = None, eventId = None\<rparr>]
   \<and> unifiedFree (getAggregatedFreeBusy officeHours [halfMinuteProvider] firstHour)
     = [\<lparr>fsStart = 0, fsEnd = 1770000, durationMinutes = 30\<rparr>]
   \<and> suggestedSlots (getAggregatedFreeBusy officeHours [halfMinuteProvider] firstHour)
     = Some [\<lparr>fsStart = 0, fsEnd = 1800000, durationMinutes = 30\<rparr>]
   \<and> (1770000::int) - 0 < 30 * msPerMinute
   \<and> rangesOverlap 0 1800000 1770000 3600000"
  by (simp add: getAggregatedFreeBusy_def selectProviders_def firstHour_def halfMinuteProvider_def
      halfMinuteBusy_def mergeBusySlots_def computeFreeSlots_def findGaps_def mergeIntervals_def
      createInterval_def fromDateTimes_def roundDiv_def msPerMinute_def findSuggestedSlots_def
      rangesOverlap_def Let_def)

section \<open>Status of merged busy slots\<close>

lemma bsStatus_update_same:
  "bsStatus c = Busy \<Longrightarrow> c\<lparr>bsStatus := Busy\<rparr> = c"
  by (cases c) simp

lemma mergeBusySlotsLoop_coalesce:
  assumes "bsStart incoming \<le> bsEnd current"
  shows "mergeBusySlotsLoop merged current (incoming # rest) =
           mergeBusySlotsLoop merged
             (current\<lparr>bsEnd := max (bsEnd current) (bsEnd incoming),
                      bsStatus := (if bsStatus current = Busy \<or> bsStatus incoming = Busy
                                   then Busy else bsStatus incoming)\<rparr>) rest"
  using assms
  by (cases "bsStatus current = Busy") (auto simp: Let_def max_def bsStatus_update_same)

lemma mergeBusySlotsLoop_step:
  assumes "bsStart incoming \<le> bsEnd current"
  shows "mergeBusySlotsLoop merged current (incoming # rest) =
           mergeBusySlotsLoop merged
             (current\<lparr>bsEnd := max (bsEnd current) (bsEnd incoming),
                      bsStatus := mergedStatus (bsStatus current) (bsStatus incoming)\<rparr>) rest"
  using mergeBusySlotsLoop_coalesce [OF assms] by (simp add: mergedStatus_def)

lemma mergeBusySlotsLoop_coalesced:
  "mergeBusySlotsLoop merged current rest = merged @ coalesce current rest"
proof (induction rest arbitrary: merged current)
  case Nil
  show ?case by simp
next
  case (Cons incoming rest)
  show ?case
  proof (cases "bsStart incoming \<le> bsEnd current")
    case True
    show ?thesis
      unfolding mergeBusySlotsLoop_step [OF True] Cons.IH using True by simp
  next
    case False
    then show ?thesis using Cons.IH by simp
  qed
qed

lemma mergeBusySlots_coalesced:
  "mergeBusySlots slots =
     (case sort_key bsStart slots of [] \<Rightarrow> [] | current # rest \<Rightarrow> coalesce current rest)"
  by (simp add: mergeBusySlots_def mergeBusySlotsLoop_coalesced split: list.split)

lemma mergeBusySlots_pair:
  assumes "(if bsStart a \<le> bsStart b then (a, b) else (b, a)) = (earlier, later)"
    and "bsStart later \<le> bsEnd earlier"
  shows "mergeBusySlots [a, b] =
           [earlier\<lparr>bsEnd := max (bsEnd earlier) (bsEnd later),
                    bsStatus := mergedStatus (bsStatus earlier) (bsStatus later)\<rparr>]"
proof -
  have "sort_key bsStart [a, b] = [earlier, later]"
    using assms(1) by (auto split: if_splits)
  then show ?thesis
    unfolding mergeBusySlots_coalesced using assms(2) by simp
qed

text \<open>
  C5. For every input list of busy slots, \<open>mergeBusySlots\<close> is the coalescing, by the
  status-merge rule, of the slots sorted by start: whenever a slot is coalesced into the
  current one, the merged slot is busy if either of the two is busy and has the status of
  the incoming, later-sorted slot otherwise. The same holds of every step of the loop
  that coalesces, and of any two slots, in whichever order they are given: when the later
  one by start begins no later than the earlier one ends, the result is the single slot
  from the earlier start to the later end with that status.
\<close>

theorem mergeBusySlots_status_rule:
  "mergeBusySlots slots =
     (case sort_key bsStart slots of [] \<Rightarrow> [] | current # rest \<Rightarrow> coalesce current rest)
   \<and> (bsStart incoming \<le> bsEnd current \<longrightarrow>
        mergeBusySlotsLoop merged current (incoming # rest') =
          mergeBusySlotsLoop merged
            (current\<lparr>bsEnd := max (bsEnd current) (bsEnd incoming),
                     bsStatus := (if bsStatus current = Busy \<or> bsStatus incoming = Busy
                                  then Busy else bsStatus incoming)\<rparr>) rest')
   \<and> ((if bsStart a \<le> bsStart b then (a, b) else (b, a)) = (earlier, later)
        \<and> bsStart later \<le> bsEnd earlier \<longrightarrow>
        mergeBusySlots [a, b] =
          [earlier\<lparr>bsEnd := max (bsEnd earlier) (bsEnd later),
                   bsStatus := (if bsStatus earlier = Busy \<or> bsStatus later = Busy
                                then Busy else bsStatus later)\<rparr>])"
  using mergeBusySlots_coalesced [of slots]
        mergeBusySlotsLoop_coalesce [of incoming current merged rest']
        mergeBusySlots_pair [of a b earlier later]
  by (simp add: mergedStatus_def)

theorem mergeBusySlots_status_rule_witness:
  "(if bsStart tentativeLate \<le> bsStart oofEarly then (tentativeLate, oofEarly)
    else (oofEarly, tentativeLate)) = (oofEarly, tentativeLate)
   \<and> bsStart tentativeLate \<le> bsEnd oofEarly
   \<and> mergeBusySlots [tentativeLate, oofEarly] =
       [\<lparr>bsStart = 0, bsEnd = 20, bsStatus = Tentative, eventSubject = None, eventId = None\<rparr>]
   \<and> bsStart slotB \<le> bsEnd slotA
   \<and> mergeBusySlots [slotA, slotB] =
       [\<lparr>bsStart = 0, bsEnd = 5400000, bsStatus = Oof, eventSubject = None, eventId = None\<rparr>]"
proof -
  have o: "(if bsStart tentativeLate \<le> bsStart oofEarly then (tentativeLate, oofEarly)
    else (oofEarly, tentativeLate)) = (oofEarly, tentativeLate)"
    by (simp add: tentativeLate_def oofEarly_def)
  have t: "bsStart tentativeLate \<le> bsEnd oofEarly"
    by (simp add: tentativeLate_def oofEarly_def)
  have o2: "(if bsStart slotA \<le> bsStart slotB then (slotA, slotB) else (slotB, slotA))
              = (slotA, slotB)"
    by (simp add: slotA_def slotB_def)
  have t2: "bsStart slotB \<le> bsEnd slotA" by (simp add: slotA_def slotB_def)
  from mergeBusySlots_status_rule
         [of "[]" tentativeLate tentativeLate "[]" "[]" tentativeLate oofEarly oofEarly tentativeLate]
       o t
  have r1: "mergeBusySlots [tentativeLate, oofEarly] =
       [\<lparr>bsStart = 0, bsEnd = 20, bsStatus = Tentative, eventSubject = None, eventId = None\<rparr>]"
    by (simp add: tentativeLate_def oofEarly_def)
  from mergeBusySlots_status_rule
         [of "[]" slotA slotA "[]" "[]" slotA slotB slotA slotB] o2 t2
  have r2: "mergeBusySlots [slotA, slotB] =
       [\<lparr>bsStart = 0, bsEnd = 5400000, bsStatus = Oof, eventSubject = None, eventId = None\<rparr>]"
    by (simp add: slotA_def slotB_def)
  from o t r1 t2 r2 show ?thesis by simp
qed

section \<open>Match scores\<close>

lemma matrix_le_max: "matrix s1 s2 i j \<le> max i j"
  by (induction s1 s2 i j rule: matrix.induct) (auto simp: Let_def)

lemma fuzzyMatch_range: "0 \<le> fuzzyMatch a b \<and> fuzzyMatch a b \<le> 1"
proof -
  have "real (matrix s1 s2 (length s1) (length s2)) / real (max (length s1) (length s2)) \<le> 1"
    if "length s1 \<noteq> 0" for s1 s2
  proof -
    have "matrix s1 s2 (length s1) (length s2) \<le> max (length s1) (length s2)"
      by (rule matrix_le_max)
    then have "real (matrix s1 s2 (length s1) (length s2)) \<le> real (max (length s1) (length s2))"
      by linarith
    moreover have "0 < max (length s1) (length s2)"
      using that by (simp add: less_max_iff_disj)
    then have "0 < real (max (length s1) (length s2))" by linarith
    ultimately show ?thesis by (simp add: divide_le_eq_1 del: of_nat_max)
  qed
  then show ?thesis
    by (auto simp: fuzzyMatch_def Let_def simp del: of_nat_max)
qed

lemma factor_ranges:
  "0 \<le> snd (subjectFactor s t) \<and> snd (subjectFactor s t) \<le> 1"
  "0 \<le> snd (startFactor s t) \<and> snd (startFactor s t) \<le> 1"
  "0 \<le> snd (endFactor s t) \<and> snd (endFactor s t) \<le> 1"
  "0 \<le> snd (locationFactor s t) \<and> snd (locationFactor s t) \<le> 1"
  "0 \<le> snd (allDayFactor s t) \<and> snd (allDayFactor s t) \<le> 1"
  "0 \<le> snd (icalFactor s t) \<and> snd (icalFactor s t) \<le> 1"
  using fuzzyMatch_range
  by (simp_all add: subjectFactor_def startFactor_def endFactor_def locationFactor_def
      allDayFactor_def icalFactor_def timeScore_def Let_def)

lemma factor_weights:
  "weight (fst (subjectFactor s t)) = 30"
  "weight (fst (startFactor s t)) = 25"
  "weight (fst (endFactor s t)) = 20"
  "weight (fst (locationFactor s t)) = 10"
  "weight (fst (allDayFactor s t)) = 10"
  "weight (fst (icalFactor s t)) = 5"
  by (simp_all add: subjectFactor_def startFactor_def endFactor_def locationFactor_def
      allDayFactor_def icalFactor_def Let_def)

lemma factorScores_range:
  "p \<in> set (factorScores s t) \<Longrightarrow> 0 \<le> snd p \<and> snd p \<le> 1 \<and> 0 < weight (fst p)"
  using factor_ranges [of s t] factor_weights [of s t]
  by (auto simp: factorScores_def split: if_splits)

lemma matchTotals_sums:
  "matchTotals s t =
     (map fst (factorScores s t),
      sum_list (map (\<lambda>p. weight (fst p)) (factorScores s t)),
      sum_list (map (\<lambda>p. weight (fst p) * snd p) (factorScores s t)))"
  by (simp add: matchTotals_def factorScores_def addFactor_def Let_def split: prod.splits)

lemma weighted_sum_bounds:
  "(\<And>p. p \<in> set ps \<Longrightarrow> 0 \<le> snd p \<and> snd p \<le> 1 \<and> 0 < weight (fst p)) \<Longrightarrow>
   0 \<le> sum_list (map (\<lambda>p. weight (fst p) * snd p) ps) \<and>
   sum_list (map (\<lambda>p. weight (fst p) * snd p) ps) \<le> sum_list (map (\<lambda>p. weight (fst p)) ps)"
proof (induction ps)
  case Nil
  then show ?case by simp
next
  case (Cons p ps)
  have p: "0 \<le> snd p \<and> snd p \<le> 1 \<and> 0 < weight (fst p)" using Cons.prems by simp
  then have "0 \<le> weight (fst p) * snd p" by simp
  moreover have "weight (fst p) * snd p \<le> weight (fst p)"
    using p by (simp add: mult_left_le)
  moreover have "0 \<le> sum_list (map (\<lambda>p. weight (fst p) * snd p) ps) \<and>
   sum_list (map (\<lambda>p. weight (fst p) * snd p) ps) \<le> sum_list (map (\<lambda>p. weight (fst p)) ps)"
    using Cons by simp
  ultimately show ?case by simp
qed

lemma totalWeight_pos: "85 \<le> sum_list (map (\<lambda>p. weight (fst p)) (factorScores s t))"
  by (simp add: factorScores_def factor_weights)

text \<open>
  C4. For every pair of events, with \<open>(factors, totalWeight, matchedWeight)\<close> the three
  accumulators of \<open>calculateMatch\<close> after its factor blocks: every factor score that
  entered lies in [0,1]; \<open>totalWeight\<close> is the sum of the weights of the factors that
  entered, \<open>matchedWeight\<close> the sum of weight times factor score, and the score is their
  quotient; the score lies in [0,1]; and the confidence is \<open>High\<close> iff the score is at
  least 0.8, \<open>Medium\<close> iff it is at least 0.5 and below 0.8, and \<open>Low\<close> iff it is below 0.5.
\<close>

theorem calculateMatch_score_range:
  assumes "matchTotals source target = (factors, totalWeight, matchedWeight)"
  shows "factors = map fst (factorScores source target)
    \<and> (\<forall>p \<in> set (factorScores source target). 0 \<le> snd p \<and> snd p \<le> 1)
    \<and> totalWeight = sum_list (map (\<lambda>p. weight (fst p)) (factorScores source target))
    \<and> matchedWeight = sum_list (map (\<lambda>p. weight (fst p) * snd p) (factorScores source target))
    \<and> 0 < totalWeight
    \<and> score (calculateMatch source target) = matchedWeight / totalWeight
    \<and> 0 \<le> score (calculateMatch source target)
    \<and> score (calculateMatch source target) \<le> 1
    \<and> (confidence (calculateMatch source target) = High
          \<longleftrightarrow> score (calculateMatch source target) \<ge> 8 / 10)
    \<and> (confidence (calculateMatch source target) = Medium
          \<longleftrightarrow> 5 / 10 \<le> score (calculateMatch source target)
              \<and> score (calculateMatch source target) < 8 / 10)
    \<and> (confidence (calculateMatch source target) = Low
          \<longleftrightarrow> score (calculateMatch source target) < 5 / 10)"
proof -
  let ?ps = "factorScores source target"
  have eqs: "factors = map fst ?ps"
    "totalWeight = sum_list (map (\<lambda>p. weight (fst p)) ?ps)"
    "matchedWeight = sum_list (map (\<lambda>p. weight (fst p) * snd p) ?ps)"
    using assms matchTotals_sums [of source target] by simp_all
  have pos: "0 < totalWeight"
    using totalWeight_pos [of source target] eqs(2) by linarith
  have bounds: "0 \<le> matchedWeight \<and> matchedWeight \<le> totalWeight"
    unfolding eqs using weighted_sum_bounds [of ?ps] factorScores_range by blast
  have sc: "score (calculateMatch source target) = matchedWeight / totalWeight"
    using assms pos by (simp add: calculateMatch_def Let_def)
  have conf: "confidence (calculateMatch source target)
                = confidenceOf (score (calculateMatch source target))"
    using assms by (simp add: calculateMatch_def Let_def)
  have s0: "0 \<le> score (calculateMatch source target)"
    unfolding sc using bounds pos by simp
  have s1: "score (calculateMatch source target) \<le> 1"
    unfolding sc using bounds pos by simp
  have ranges: "\<forall>p \<in> set ?ps. 0 \<le> snd p \<and> snd p \<le> 1"
    using factorScores_range by blast
  have cH: "confidence (calculateMatch source target) = High
          \<longleftrightarrow> score (calculateMatch source target) \<ge> 8 / 10"
    unfolding conf by (simp add: confidenceOf_def)
  have cM: "confidence (calculateMatch source target) = Medium
          \<longleftrightarrow> 5 / 10 \<le> score (calculateMatch source target)
              \<and> score (calculateMatch source target) < 8 / 10"
    unfolding conf by (auto simp: confidenceOf_def)
  have cL: "confidence (calculateMatch source target) = Low
          \<longleftrightarrow> score (calculateMatch source target) < 5 / 10"
    unfolding conf by (auto simp: confidenceOf_def)
  from eqs ranges pos sc s0 s1 cH cM cL show ?thesis by blast
qed

lemma fuzzy_Sync_Sink: "fuzzyMatch ''Sync '' ''Sink'' = 1 / 2"
proof -
  have a: "trim (toLowerCase ''Sync '') = ''sync''" by code_simp
  have b: "trim (toLowerCase ''Sink'') = ''sink''" by code_simp
  have c: "matrix ''sync'' ''sink'' (length ''sync'') (length ''sink'') = 2" by code_simp
  show ?thesis unfolding fuzzyMatch_def Let_def a b c by simp
qed

theorem calculateMatch_score_range_witness:
  "matchTotals eventA eventB = (map fst (factorScores eventA eventB), 95, 60)
   \<and> score (calculateMatch eventA eventB) = 12 / 19
   \<and> confidence (calculateMatch eventA eventB) = Medium"
proof -
  have loc: "fuzzyMatch ''Room 1'' [] = 0" by (simp add: fuzzyMatch_def)
  have tot: "matchTotals eventA eventB = (map fst (factorScores eventA eventB), 95, 60)"
    unfolding matchTotals_sums
    by (simp add: factorScores_def subjectFactor_def startFactor_def endFactor_def
        locationFactor_def allDayFactor_def timeScore_def truthy_def orEmpty_def
        eventA_def eventB_def fuzzy_Sync_Sink loc Let_def)
  from calculateMatch_score_range [OF tot] tot show ?thesis by simp
qed

section \<open>The search for an alternative slot\<close>

lemma find_overlap_eq:
  "find (\<lambda>b. cursor < snd b \<and> cursor + d > fst b) bs
     = find (\<lambda>b. rangesOverlap cursor (cursor + d) (fst b) (snd b)) bs"
  by (simp add: rangesOverlap_def)

lemma windowFree_iff_find:
  "windowFree bs cursor (cursor + d)
     \<longleftrightarrow> find (\<lambda>b. rangesOverlap cursor (cursor + d) (fst b) (snd b)) bs = None"
  by (auto simp: windowFree_def find_None_iff list_all_iff)

lemma loop_unfold:
  "findAlternativeSlotLoop ps pe se bs cursor =
     (if cursor < se then
        (case find (\<lambda>b. rangesOverlap cursor (cursor + (pe - ps)) (fst b) (snd b)) bs of
           None \<Rightarrow> Some (Some (suggestionAt ps pe cursor))
         | Some b \<Rightarrow> findAlternativeSlotLoop ps pe se bs (if snd b \<le> ps then pe else snd b))
      else Some None)"
  by (subst findAlternativeSlotLoop.simps)
     (auto simp: Let_def suggestionAt_def find_overlap_eq split: option.split)

lemma loop_free:
  "cursor < se \<Longrightarrow> windowFree bs cursor (cursor + (pe - ps)) \<Longrightarrow>
   findAlternativeSlotLoop ps pe se bs cursor = Some (Some (suggestionAt ps pe cursor))"
  by (subst loop_unfold) (simp add: windowFree_iff_find)

lemma loop_horizon:
  "\<not> cursor < se \<Longrightarrow> findAlternativeSlotLoop ps pe se bs cursor = Some None"
  by (subst loop_unfold) simp

lemma loop_jump:
  assumes "cursor < se" "find (\<lambda>b. rangesOverlap cursor (cursor + (pe - ps)) (fst b) (snd b)) bs = Some b"
  shows "findAlternativeSlotLoop ps pe se bs cursor
           = findAlternativeSlotLoop ps pe se bs (if snd b \<le> ps then pe else snd b)"
  using assms by (subst loop_unfold) simp

lemma find_overlap_SomeD:
  assumes "find (\<lambda>b. rangesOverlap cursor e (fst b) (snd b)) bs = Some b"
  shows "b \<in> set bs \<and> cursor < snd b"
  using assms by (auto simp: find_Some_iff rangesOverlap_def)

lemma later_ends_decrease:
  fixes bs :: "(millis \<times> millis) list"
  assumes "b \<in> set bs" "cursor < snd b"
  shows "length (filter (\<lambda>x. snd b < snd x) bs) < length (filter (\<lambda>x. cursor < snd x) bs)"
proof -
  have "filter (\<lambda>x. snd b < snd x) bs
          = filter (\<lambda>x. snd b < snd x) (filter (\<lambda>x. cursor < snd x) bs)"
    unfolding filter_filter by (rule filter_cong) (use assms(2) in auto)
  moreover have "b \<in> set (filter (\<lambda>x. cursor < snd x) bs)" using assms by simp
  then have "length (filter (\<lambda>x. snd b < snd x) (filter (\<lambda>x. cursor < snd x) bs))
               < length (filter (\<lambda>x. cursor < snd x) bs)"
    by (rule length_filter_less) simp
  ultimately show ?thesis by simp
qed

lemma loop_walk:
  assumes "ps \<le> cursor"
  shows "\<exists>n. (\<forall>k<n. (jumpCursor bs (pe - ps) ^^ k) cursor < se
                  \<and> \<not> windowFree bs ((jumpCursor bs (pe - ps) ^^ k) cursor)
                         ((jumpCursor bs (pe - ps) ^^ k) cursor + (pe - ps))
                  \<and> (jumpCursor bs (pe - ps) ^^ k) cursor
                       < (jumpCursor bs (pe - ps) ^^ Suc k) cursor)
           \<and> (if (jumpCursor bs (pe - ps) ^^ n) cursor < se
               then windowFree bs ((jumpCursor bs (pe - ps) ^^ n) cursor)
                      ((jumpCursor bs (pe - ps) ^^ n) cursor + (pe - ps))
                  \<and> findAlternativeSlotLoop ps pe se bs cursor
                        = Some (Some (suggestionAt ps pe ((jumpCursor bs (pe - ps) ^^ n) cursor)))
               else findAlternativeSlotLoop ps pe se bs cursor = Some None)"
  using assms
proof (induction "length (filter (\<lambda>x. cursor < snd x) bs)" arbitrary: cursor rule: less_induct)
  case less
  let ?j = "jumpCursor bs (pe - ps)"
  show ?case
  proof (cases "cursor < se")
    case False
    then have "findAlternativeSlotLoop ps pe se bs cursor = Some None" by (rule loop_horizon)
    with False show ?thesis by (intro exI [of _ 0]) simp
  next
    case inside: True
    show ?thesis
    proof (cases "find (\<lambda>b. rangesOverlap cursor (cursor + (pe - ps)) (fst b) (snd b)) bs")
      case None
      then have free: "windowFree bs cursor (cursor + (pe - ps))"
        by (simp add: windowFree_iff_find)
      with inside loop_free [OF inside free] show ?thesis
        by (intro exI [of _ 0]) simp
    next
      case (Some b)
      from find_overlap_SomeD [OF Some] have b: "b \<in> set bs" "cursor < snd b" by simp_all
      have j: "?j cursor = snd b" by (simp add: jumpCursor_def Some)
      have notfree: "\<not> windowFree bs cursor (cursor + (pe - ps))"
        by (simp add: windowFree_iff_find Some)
      have past: "ps \<le> snd b" "\<not> snd b \<le> ps" using b(2) less.prems by simp_all
      have step: "findAlternativeSlotLoop ps pe se bs cursor
                    = findAlternativeSlotLoop ps pe se bs (snd b)"
        using loop_jump [OF inside Some] past by simp
      from less.hyps [OF later_ends_decrease [OF b] past(1)]
      obtain n where n:
        "\<forall>k<n. (?j ^^ k) (snd b) < se
                  \<and> \<not> windowFree bs ((?j ^^ k) (snd b)) ((?j ^^ k) (snd b) + (pe - ps))
                  \<and> (?j ^^ k) (snd b) < (?j ^^ Suc k) (snd b)"
        "if (?j ^^ n) (snd b) < se
               then windowFree bs ((?j ^^ n) (snd b)) ((?j ^^ n) (snd b) + (pe - ps))
                  \<and> findAlternativeSlotLoop ps pe se bs (snd b)
                        = Some (Some (suggestionAt ps pe ((?j ^^ n) (snd b))))
               else findAlternativeSlotLoop ps pe se bs (snd b) = Some None"
        by blast
      have shift: "(?j ^^ Suc k) cursor = (?j ^^ k) (snd b)" for k
        by (simp add: funpow_swap1 j)
      have "\<forall>k<Suc n. (?j ^^ k) cursor < se
                  \<and> \<not> windowFree bs ((?j ^^ k) cursor) ((?j ^^ k) cursor + (pe - ps))
                  \<and> (?j ^^ k) cursor < (?j ^^ Suc k) cursor"
      proof (intro allI impI)
        fix k assume "k < Suc n"
        show "(?j ^^ k) cursor < se
                  \<and> \<not> windowFree bs ((?j ^^ k) cursor) ((?j ^^ k) cursor + (pe - ps))
                  \<and> (?j ^^ k) cursor < (?j ^^ Suc k) cursor"
        proof (cases k)
          case 0
          with inside notfree b(2) j show ?thesis by simp
        next
          case (Suc k')
          with \<open>k < Suc n\<close> have "k' < n" by simp
          with n(1) have "(?j ^^ k') (snd b) < se
                  \<and> \<not> windowFree bs ((?j ^^ k') (snd b)) ((?j ^^ k') (snd b) + (pe - ps))
                  \<and> (?j ^^ k') (snd b) < (?j ^^ Suc k') (snd b)" by blast
          then show ?thesis unfolding Suc shift [symmetric] .
        qed
      qed
      moreover have "if (?j ^^ Suc n) cursor < se
               then windowFree bs ((?j ^^ Suc n) cursor) ((?j ^^ Suc n) cursor + (pe - ps))
                  \<and> findAlternativeSlotLoop ps pe se bs cursor
                        = Some (Some (suggestionAt ps pe ((?j ^^ Suc n) cursor)))
               else findAlternativeSlotLoop ps pe se bs cursor = Some None"
        using n(2) unfolding shift step .
      ultimately show ?thesis by (intro exI [of _ "Suc n"]) blast
    qed
  qed
qed

lemma findAlternativeSlot_walk:
  "\<exists>n. (\<forall>k<n. candidateStart ps pe evs k < ps + 7 * msPerDay
             \<and> \<not> windowFree (busyTimes evs) (candidateStart ps pe evs k)
                    (candidateStart ps pe evs k + (pe - ps))
             \<and> candidateStart ps pe evs k < candidateStart ps pe evs (Suc k))
      \<and> (if candidateStart ps pe evs n < ps + 7 * msPerDay
          then windowFree (busyTimes evs) (candidateStart ps pe evs n)
                 (candidateStart ps pe evs n + (pe - ps))
             \<and> findAlternativeSlot ps pe evs
                  = Some (Some (suggestionAt ps pe (candidateStart ps pe evs n)))
          else findAlternativeSlot ps pe evs = Some None)"
  unfolding candidateStart_def findAlternativeSlot_def Let_def
  by (rule loop_walk) simp

text \<open>
  C7. For every proposed interval and every list of events, the search returns. With the
  candidate starts reached from \<open>proposedStart\<close> by jumping to the end of the first
  overlapping busy slot, there is an \<open>n\<close> such that every earlier candidate lies within the
  seven-day horizon, has an overlapping busy slot and is strictly before the next
  candidate, and either the \<open>n\<close>-th candidate lies within the horizon, its window overlaps
  no busy slot and it is the suggestion returned, or it lies beyond the horizon and no
  suggestion is returned. Moreover, in any state of the loop, when the busy slot found
  ends no later than \<open>proposedStart\<close>, the loop retries from \<open>proposedEnd\<close>.
\<close>

theorem findAlternativeSlot_search:
  "(\<exists>n. (\<forall>k<n. candidateStart ps pe evs k < ps + 7 * msPerDay
             \<and> \<not> windowFree (busyTimes evs) (candidateStart ps pe evs k)
                    (candidateStart ps pe evs k + (pe - ps))
             \<and> candidateStart ps pe evs k < candidateStart ps pe evs (Suc k))
      \<and> (if candidateStart ps pe evs n < ps + 7 * msPerDay
          then windowFree (busyTimes evs) (candidateStart ps pe evs n)
                 (candidateStart ps pe evs n + (pe - ps))
             \<and> findAlternativeSlot ps pe evs
                  = Some (Some (suggestionAt ps pe (candidateStart ps pe evs n)))
          else findAlternativeSlot ps pe evs = Some None))
   \<and> (\<forall>se bs cursor b.
         cursor < se
         \<and> find (\<lambda>b. rangesOverlap cursor (cursor + (pe - ps)) (fst b) (snd b)) bs = Some b
         \<and> snd b \<le> ps
         \<longrightarrow> findAlternativeSlotLoop ps pe se bs cursor = findAlternativeSlotLoop ps pe se bs pe)"
proof (intro conjI allI impI)
  show "\<exists>n. (\<forall>k<n. candidateStart ps pe evs k < ps + 7 * msPerDay
             \<and> \<not> windowFree (busyTimes evs) (candidateStart ps pe evs k)
                    (candidateStart ps pe evs k + (pe - ps))
             \<and> candidateStart ps pe evs k < candidateStart ps pe evs (Suc k))
      \<and> (if candidateStart ps pe evs n < ps + 7 * msPerDay
          then windowFree (busyTimes evs) (candidateStart ps pe evs n)
                 (candidateStart ps pe evs n + (pe - ps))
             \<and> findAlternativeSlot ps pe evs
                  = Some (Some (suggestionAt ps pe (candidateStart ps pe evs n)))
          else findAlternativeSlot ps pe evs = Some None)"
    by (rule findAlternativeSlot_walk)
next
  fix se bs cursor b
  assume "cursor < se
         \<and> find (\<lambda>b. rangesOverlap cursor (cursor + (pe - ps)) (fst b) (snd b)) bs = Some b
         \<and> snd b \<le> ps"
  then show "findAlternativeSlotLoop ps pe se bs cursor = findAlternativeSlotLoop ps pe se bs pe"
    using loop_jump [of cursor se pe ps bs b] by simp
qed

lemma walkEvents_busyTimes: "busyTimes walkEvents = [(0, 1800000), (3000000, 4000000)]"
  by (simp add: busyTimes_def walkEvents_def)

lemma walkEvents_result:
  "findAlternativeSlot 0 3600000 walkEvents
     = Some (Some \<lparr>sgStart = 4000000, sgEnd = 7600000, sgReason = NextAvailableToday\<rparr>)"
  by (simp add: findAlternativeSlot_def walkEvents_busyTimes loop_unfold rangesOverlap_def
      suggestionAt_def startOfDay_def msPerDay_def)

lemma guard_result:
  "findAlternativeSlotLoop 10 20 100 [(0, 5)] 20
     = Some (Some \<lparr>sgStart = 20, sgEnd = 30, sgReason = NextAvailableToday\<rparr>)"
  by (simp add: loop_unfold rangesOverlap_def suggestionAt_def startOfDay_def msPerDay_def)

theorem findAlternativeSlot_search_witness:
  "findAlternativeSlot 0 3600000 walkEvents
     = Some (Some \<lparr>sgStart = 4000000, sgEnd = 7600000, sgReason = NextAvailableToday\<rparr>)
   \<and> candidateStart 0 3600000 walkEvents 2 = 4000000
   \<and> (0::int) < 100
   \<and> find (\<lambda>b. rangesOverlap 0 (0 + (20 - 10)) (fst b) (snd b)) [(0, 5)] = Some (0, 5::int)
   \<and> snd (0::int, 5::int) \<le> 10
   \<and> findAlternativeSlotLoop 10 20 100 [(0, 5)] 0
        = Some (Some \<lparr>sgStart = 20, sgEnd = 30, sgReason = NextAvailableToday\<rparr>)"
proof -
  have c2: "candidateStart 0 3600000 walkEvents 2 = 4000000"
    by (simp add: candidateStart_def walkEvents_busyTimes jumpCursor_def rangesOverlap_def
        eval_nat_numeral)
  have f: "find (\<lambda>b. rangesOverlap 0 (0 + (20 - 10)) (fst b) (snd b)) [(0, 5)] = Some (0, 5::int)"
    by (simp add: rangesOverlap_def)
  from findAlternativeSlot_search [of 10 20 walkEvents] f
  have "findAlternativeSlotLoop 10 20 100 [(0, 5)] 0 = findAlternativeSlotLoop 10 20 100 [(0, 5)] 20"
    by simp
  with walkEvents_result c2 f guard_result show ?thesis by simp
qed

section \<open>Conflict detection\<close>

lemma findAlternativeSlot_returns: "\<exists>r. findAlternativeSlot ps pe evs = Some r"
  using findAlternativeSlot_walk [of ps pe evs] by (auto split: if_splits)

lemma findAlternativeSlot_windowFree:
  assumes "findAlternativeSlot ps pe evs = Some (Some s)"
  shows "windowFree (busyTimes evs) (sgStart s) (sgEnd s)"
proof -
  from findAlternativeSlot_walk [of ps pe evs] obtain n where
    n: "if candidateStart ps pe evs n < ps + 7 * msPerDay
          then windowFree (busyTimes evs) (candidateStart ps pe evs n)
                 (candidateStart ps pe evs n + (pe - ps))
             \<and> findAlternativeSlot ps pe evs
                  = Some (Some (suggestionAt ps pe (candidateStart ps pe evs n)))
          else findAlternativeSlot ps pe evs = Some None"
    by blast
  show ?thesis
  proof (cases "candidateStart ps pe evs n < ps + 7 * msPerDay")
    case True
    with n assms have "s = suggestionAt ps pe (candidateStart ps pe evs n)" by simp
    with n True show ?thesis by (simp add: suggestionAt_def)
  next
    case False
    with n assms show ?thesis by simp
  qed
qed

lemma busyTimes_set:
  "set (busyTimes evs) = (\<lambda>e. (evStart e, evEnd e)) ` {e \<in> set evs. showAs e \<noteq> Free}"
  by (simp add: busyTimes_def)

lemma busyTimes_nonfree:
  "busyTimes (filter (\<lambda>e. showAs e \<noteq> Free) evs) = busyTimes evs"
  by (simp add: busyTimes_def)

lemma isConflict_nonfree: "isConflict params e \<Longrightarrow> showAs e \<noteq> Free"
  by (auto simp: isConflict_def split: if_splits)

lemma filter_isConflict_nonfree:
  "filter (isConflict params) (filter (\<lambda>e. showAs e \<noteq> Free) evs) = filter (isConflict params) evs"
  unfolding filter_filter by (rule filter_cong) (auto dest: isConflict_nonfree)

lemma findAlternativeSlot_nonfree:
  "findAlternativeSlot ps pe (filter (\<lambda>e. showAs e \<noteq> Free) evs) = findAlternativeSlot ps pe evs"
  by (simp add: findAlternativeSlot_def busyTimes_nonfree)

lemma checkConflictsOn_nonfree:
  "checkConflictsOn (filter (\<lambda>e. showAs e \<noteq> Free) evs) params = checkConflictsOn evs params"
  unfolding checkConflictsOn_def filter_isConflict_nonfree findAlternativeSlot_nonfree ..

lemma checkConflictsOn_returns:
  "\<exists>r. checkConflictsOn evs params = Some r
       \<and> conflicts r = map toConflict (filter (isConflict params) evs)
       \<and> hasConflict r = (filter (isConflict params) evs \<noteq> [])
       \<and> (suggestion r \<noteq> None \<longrightarrow>
            findAlternativeSlot (ccStartTime params) (ccEndTime params) evs = Some (suggestion r))"
proof (cases "filter (isConflict params) evs = []")
  case True
  then show ?thesis by (simp add: checkConflictsOn_def)
next
  case False
  obtain s where "findAlternativeSlot (ccStartTime params) (ccEndTime params) evs = Some s"
    using findAlternativeSlot_returns by blast
  with False show ?thesis by (simp add: checkConflictsOn_def Let_def)
qed

text \<open>
  C8. For every call of \<open>checkConflicts\<close>, with \<open>evs\<close> the events that \<open>listAllEvents\<close>
  returns for the buffered range: the call returns; no reported conflict has \<open>showAs\<close>
  free; every busy time of the alternative-slot search is the interval of an event that
  is not free; the result is the one obtained with the free events removed from \<open>evs\<close>;
  when every event that overlaps the proposed interval is free, \<open>hasConflict\<close> is false,
  nothing is reported and nothing is suggested; and every event that is not free, is not
  the excluded event and overlaps the proposed interval makes \<open>hasConflict\<close> true and is
  listed.
\<close>

theorem checkConflicts_free_filter:
  assumes "evs = lrEvents (listAllEvents registry (conflictListParams params))"
  shows "\<exists>r. checkConflicts registry params = Some r
     \<and> (\<forall>c \<in> set (conflicts r). cShowAs c \<noteq> Free)
     \<and> (\<forall>b \<in> set (busyTimes evs). \<exists>e \<in> set evs. showAs e \<noteq> Free \<and> b = (evStart e, evEnd e))
     \<and> checkConflictsOn (filter (\<lambda>e. showAs e \<noteq> Free) evs) params = Some r
     \<and> ((\<forall>e \<in> set evs. rangesOverlap (ccStartTime params) (ccEndTime params) (evStart e) (evEnd e)
                          \<longrightarrow> showAs e = Free)
          \<longrightarrow> \<not> hasConflict r \<and> conflicts r = [] \<and> suggestion r = None)
     \<and> (\<forall>e \<in> set evs. showAs e \<noteq> Free \<and> \<not> isExcluded params e
              \<and> rangesOverlap (ccStartTime params) (ccEndTime params) (evStart e) (evEnd e)
            \<longrightarrow> hasConflict r \<and> toConflict e \<in> set (conflicts r))"
proof -
  from checkConflictsOn_returns [of evs params] obtain r where
    r: "checkConflictsOn evs params = Some r"
       "conflicts r = map toConflict (filter (isConflict params) evs)"
       "hasConflict r = (filter (isConflict params) evs \<noteq> [])"
    by blast
  have ret: "checkConflicts registry params = Some r"
    using r(1) assms by (simp add: checkConflicts_def)
  have shown: "\<forall>c \<in> set (conflicts r). cShowAs c \<noteq> Free"
    unfolding r(2) by (auto simp: toConflict_def dest: isConflict_nonfree)
  have times: "\<forall>b \<in> set (busyTimes evs). \<exists>e \<in> set evs. showAs e \<noteq> Free \<and> b = (evStart e, evEnd e)"
    unfolding busyTimes_set by auto
  have same: "checkConflictsOn (filter (\<lambda>e. showAs e \<noteq> Free) evs) params = Some r"
    using r(1) by (simp add: checkConflictsOn_nonfree)
  have none: "\<not> hasConflict r \<and> conflicts r = [] \<and> suggestion r = None"
    if "\<forall>e \<in> set evs. rangesOverlap (ccStartTime params) (ccEndTime params) (evStart e) (evEnd e)
                          \<longrightarrow> showAs e = Free"
  proof -
    have "filter (isConflict params) evs = []"
      using that by (auto simp: filter_empty_conv isConflict_def)
    with r(1) show ?thesis by (auto simp: checkConflictsOn_def)
  qed
  have some: "\<forall>e \<in> set evs. showAs e \<noteq> Free \<and> \<not> isExcluded params e
              \<and> rangesOverlap (ccStartTime params) (ccEndTime params) (evStart e) (evEnd e)
            \<longrightarrow> hasConflict r \<and> toConflict e \<in> set (conflicts r)"
  proof (intro ballI impI)
    fix e assume e: "e \<in> set evs" and
      "showAs e \<noteq> Free \<and> \<not> isExcluded params e
              \<and> rangesOverlap (ccStartTime params) (ccEndTime params) (evStart e) (evEnd e)"
    then have "isConflict params e" by (simp add: isConflict_def)
    with e have "e \<in> set (filter (isConflict params) evs)" by simp
    then show "hasConflict r \<and> toConflict e \<in> set (conflicts r)"
      unfolding r(2) r(3) by (auto simp: filter_empty_conv)
  qed
  from ret shown times same none some show ?thesis by blast
qed

lemma listed_one:
  "lrEvents (listAllEvents [providerWith t name [e]] (conflictListParams q)) = [e]"
  by (simp add: listAllEvents_def selectProviders_def conflictListParams_def providerWith_def)

theorem checkConflicts_free_filter_witness:
  "checkConflicts [providerWith Google ''g'' [freeMeeting]] proposal
      = Some \<lparr>hasConflict = False, conflicts = [], suggestion = None\<rparr>
   \<and> checkConflicts [providerWith Google ''g'' [busyMeeting]] proposal
      = Some \<lparr>hasConflict = True, conflicts = [toConflict busyMeeting],
              suggestion = Some \<lparr>sgStart = 52200000, sgEnd = 55800000,
                                 sgReason = NextAvailableToday\<rparr>\<rparr>"
proof -
  have free: "checkConflicts [providerWith Google ''g'' [freeMeeting]] proposal
      = Some \<lparr>hasConflict = False, conflicts = [], suggestion = None\<rparr>"
    using checkConflicts_free_filter [OF refl, of "[providerWith Google ''g'' [freeMeeting]]" proposal]
    by (auto simp: listed_one freeMeeting_def busyMeeting_def)
  have busy: "checkConflicts [providerWith Google ''g'' [busyMeeting]] proposal
      = Some \<lparr>hasConflict = True, conflicts = [toConflict busyMeeting],
              suggestion = Some \<lparr>sgStart = 52200000, sgEnd = 55800000,
                                 sgReason = NextAvailableToday\<rparr>\<rparr>"
    by (simp add: checkConflicts_def listed_one checkConflictsOn_def isConflict_def
        isExcluded_def proposal_def busyMeeting_def rangesOverlap_def findAlternativeSlot_def
        busyTimes_def loop_unfold suggestionAt_def startOfDay_def msPerDay_def)
  from free busy show ?thesis by simp
qed

lemma isExcluded_toConflict:
  "isExcluded params e \<Longrightarrow> toConflict e' = toConflict e \<Longrightarrow> isExcluded params e'"
  by (auto simp: isExcluded_def toConflict_def split: option.splits)

lemma windowFree_member:
  "windowFree bs c e \<Longrightarrow> b \<in> set bs \<Longrightarrow> \<not> rangesOverlap c e (fst b) (snd b)"
  by (simp add: windowFree_def list_all_iff)

text \<open>
  C10. For every call of \<open>checkConflicts\<close> and every listed event \<open>e\<close> that the call
  excludes (a non-empty \<open>excludeEventId\<close> equal to the event's id, and the
  \<open>excludeProvider\<close>, when given, equal to its provider): the call returns, \<open>e\<close> is not
  among the reported conflicts, and no reported conflict carries the excluded id and
  provider; yet when \<open>e\<close> is not free, its interval is one of the busy times of the
  alternative-slot search, and a suggestion, when one is returned, does not overlap \<open>e\<close>.
\<close>

theorem checkConflicts_excluded_event:
  assumes "evs = lrEvents (listAllEvents registry (conflictListParams params))"
    and "e \<in> set evs" and "isExcluded params e"
  shows "\<exists>r. checkConflicts registry params = Some r
     \<and> toConflict e \<notin> set (conflicts r)
     \<and> (\<forall>c \<in> set (conflicts r).
           \<not> (excludeEventId params = Some (cId c)
              \<and> (excludeProvider params = None \<or> excludeProvider params = Some (cProvider c))))
     \<and> (showAs e \<noteq> Free \<longrightarrow>
           (evStart e, evEnd e) \<in> set (busyTimes evs)
           \<and> (\<forall>s. suggestion r = Some s \<longrightarrow>
                 \<not> rangesOverlap (sgStart s) (sgEnd s) (evStart e) (evEnd e)))"
proof -
  from checkConflictsOn_returns [of evs params] obtain r where
    r: "checkConflictsOn evs params = Some r"
       "conflicts r = map toConflict (filter (isConflict params) evs)"
       "suggestion r \<noteq> None \<longrightarrow>
            findAlternativeSlot (ccStartTime params) (ccEndTime params) evs = Some (suggestion r)"
    by blast
  have ret: "checkConflicts registry params = Some r"
    using r(1) assms(1) by (simp add: checkConflicts_def)
  have omitted: "toConflict e \<notin> set (conflicts r)"
  proof
    assume "toConflict e \<in> set (conflicts r)"
    then obtain e' where e': "isConflict params e'" "toConflict e' = toConflict e"
      unfolding r(2) by auto
    from isExcluded_toConflict [OF assms(3) e'(2)] e'(1) show False
      by (simp add: isConflict_def)
  qed
  have ids: "\<forall>c \<in> set (conflicts r).
           \<not> (excludeEventId params = Some (cId c)
              \<and> (excludeProvider params = None \<or> excludeProvider params = Some (cProvider c)))"
  proof
    fix c assume "c \<in> set (conflicts r)"
    then obtain e' where e': "isConflict params e'" "c = toConflict e'"
      unfolding r(2) by auto
    then have "\<not> isExcluded params e'" by (auto simp: isConflict_def split: if_splits)
    moreover from assms(3) obtain x where "excludeEventId params = Some x" "x \<noteq> []"
      by (auto simp: isExcluded_def split: option.splits)
    ultimately show "\<not> (excludeEventId params = Some (cId c)
              \<and> (excludeProvider params = None \<or> excludeProvider params = Some (cProvider c)))"
      using e'(2) by (auto simp: isExcluded_def toConflict_def split: option.splits)
  qed
  have avoided: "(evStart e, evEnd e) \<in> set (busyTimes evs)
           \<and> (\<forall>s. suggestion r = Some s \<longrightarrow>
                 \<not> rangesOverlap (sgStart s) (sgEnd s) (evStart e) (evEnd e))"
    if nonfree: "showAs e \<noteq> Free"
  proof -
    have mem: "(evStart e, evEnd e) \<in> set (busyTimes evs)"
      unfolding busyTimes_set using assms(2) nonfree by auto
    have "\<not> rangesOverlap (sgStart s) (sgEnd s) (evStart e) (evEnd e)"
      if "suggestion r = Some s" for s
    proof -
      from that r(3)
      have "findAlternativeSlot (ccStartTime params) (ccEndTime params) evs = Some (Some s)"
        by simp
      from windowFree_member [OF findAlternativeSlot_windowFree [OF this] mem]
      show ?thesis by simp
    qed
    with mem show ?thesis by blast
  qed
  from ret omitted ids avoided show ?thesis by blast
qed

lemma listed_two:
  "lrEvents (listAllEvents [providerWith Google ''g'' [otherMeeting, movedMeeting]]
       (conflictListParams reschedule)) = [otherMeeting, movedMeeting]"
  by (simp add: listAllEvents_def selectProviders_def conflictListParams_def providerWith_def
      otherMeeting_def movedMeeting_def)

theorem checkConflicts_excluded_event_witness:
  "movedMeeting \<in> set [otherMeeting, movedMeeting]
   \<and> isExcluded reschedule movedMeeting
   \<and> showAs movedMeeting \<noteq> Free
   \<and> checkConflicts [providerWith Google ''g'' [otherMeeting, movedMeeting]] reschedule
      = Some \<lparr>hasConflict = True, conflicts = [toConflict otherMeeting],
              suggestion = Some \<lparr>sgStart = 57600000, sgEnd = 61200000,
                                 sgReason = NextAvailableToday\<rparr>\<rparr>
   \<and> rangesOverlap (ccStartTime reschedule) (ccEndTime reschedule)
         (evStart movedMeeting) (evEnd movedMeeting)
   \<and> toConflict movedMeeting \<noteq> toConflict otherMeeting
   \<and> \<not> rangesOverlap 57600000 61200000 (evStart movedMeeting) (evEnd movedMeeting)"
proof -
  have ex: "isExcluded reschedule movedMeeting"
    by (simp add: isExcluded_def reschedule_def movedMeeting_def)
  have res: "checkConflicts [providerWith Google ''g'' [otherMeeting, movedMeeting]] reschedule
      = Some \<lparr>hasConflict = True, conflicts = [toConflict otherMeeting],
              suggestion = Some \<lparr>sgStart = 57600000, sgEnd = 61200000,
                                 sgReason = NextAvailableToday\<rparr>\<rparr>"
    unfolding checkConflicts_def listed_two
    by (simp add: checkConflictsOn_def isConflict_def
        isExcluded_def reschedule_def otherMeeting_def movedMeeting_def rangesOverlap_def
        findAlternativeSlot_def busyTimes_def loop_unfold suggestionAt_def startOfDay_def
        msPerDay_def)
  from checkConflicts_excluded_event [OF listed_two [symmetric] _ ex] res
  have "toConflict movedMeeting \<notin> set [toConflict otherMeeting]
        \<and> \<not> rangesOverlap 57600000 61200000 (evStart movedMeeting) (evEnd movedMeeting)"
    by (auto simp: movedMeeting_def)
  moreover have "rangesOverlap (ccStartTime reschedule) (ccEndTime reschedule)
         (evStart movedMeeting) (evEnd movedMeeting)"
    by (simp add: rangesOverlap_def reschedule_def movedMeeting_def)
  ultimately show ?thesis using ex res by (simp add: movedMeeting_def)
qed

section \<open>Provider failures\<close>












section \<open>Partial free/busy results\<close>

lemma settleFreeBusy_acc:
  "snd (settleFreeBusy params ps (cals, errs, slots))
     = (errs @ List.map_filter (freeBusyError params) ps, slots @ concat (map (busyOf params) ps))"
proof (induction ps arbitrary: cals errs slots)
  case Nil
  then show ?case by (simp add: List.map_filter_simps)
next
  case (Cons p ps)
  show ?case
  proof (cases "getFreeBusy p params")
    case (Inl reason)
    then show ?thesis
      using Cons.IH by (simp add: freeBusyError_def busyOf_def List.map_filter_simps)
  next
    case (Inr freeBusy)
    then show ?thesis
      using Cons.IH by (simp add: freeBusyError_def busyOf_def List.map_filter_simps)
  qed
qed

lemma length_freeBusyErrors:
  "length (List.map_filter (freeBusyError params) ps)
     = length (filter (\<lambda>p. isl (getFreeBusy p params)) ps)"
  by (induction ps)
     (auto simp: List.map_filter_simps freeBusyError_def split: sum.splits)

text \<open>
  C2, as the code has it. \<open>getAggregatedFreeBusy\<close> is a total function of the providers'
  outcomes: a rejected \<open>getFreeBusy\<close> call never makes it fail. When at least one provider
  is selected, the \<open>errors\<close> field is absent if no call was rejected and otherwise holds
  exactly one entry per rejected call, in provider order, and \<open>unified.busy\<close> is the merge
  of the busy slots of all fulfilled calls. The response has no field that flags a
  partial result; the \<open>errors\<close> field is all that tells.
\<close>

theorem getAggregatedFreeBusy_partial:
  assumes "providers = selectProviders (fbProviders params) registry" and "providers \<noteq> []"
  shows "fbErrors (getAggregatedFreeBusy defaults registry params)
           = (if List.map_filter (freeBusyError params) providers = [] then None
              else Some (List.map_filter (freeBusyError params) providers))
     \<and> length (List.map_filter (freeBusyError params) providers)
           = length (filter (\<lambda>p. isl (getFreeBusy p params)) providers)
     \<and> unifiedBusy (getAggregatedFreeBusy defaults registry params)
           = mergeBusySlots (concat (map (busyOf params) providers))"
proof -
  obtain cals errs slots where st: "settleFreeBusy params providers ([], [], []) = (cals, errs, slots)"
    by (cases "settleFreeBusy params providers ([], [], [])") auto
  with settleFreeBusy_acc [of params providers "[]" "[]" "[]"]
  have acc: "errs = List.map_filter (freeBusyError params) providers"
    "slots = concat (map (busyOf params) providers)" by simp_all
  have "fbErrors (getAggregatedFreeBusy defaults registry params)
          = (if errs = [] then None else Some errs)"
    using assms st by (simp add: getAggregatedFreeBusy_def Let_def)
  moreover have "unifiedBusy (getAggregatedFreeBusy defaults registry params) = mergeBusySlots slots"
    using assms st by (simp add: getAggregatedFreeBusy_def Let_def)
  ultimately show ?thesis
    unfolding acc using length_freeBusyErrors [of params providers] by simp
qed

lemma morning_response:
  "getAggregatedFreeBusy officeHours [workProvider, failingProvider] morning
     = \<lparr>calendars = [(''cal-ms'', workCalendar)],
        unifiedBusy = [\<lparr>bsStart = 3600000, bsEnd = 7200000, bsStatus = Busy,
                        eventSubject = None, eventId = None\<rparr>],
        unifiedFree = [\<lparr>fsStart = 0, fsEnd = 3600000, durationMinutes = 60\<rparr>,
                       \<lparr>fsStart = 7200000, fsEnd = 10800000, durationMinutes = 60\<rparr>],
        suggestedSlots = None,
        fbErrors = Some [\<lparr>feProvider = Google, feCalendarId = Some ''google-work'',
                          feMessage = ''timeout''\<rparr>]\<rparr>"
  by (simp add: getAggregatedFreeBusy_def selectProviders_def morning_def workProvider_def
      failingProvider_def workCalendar_def mergeBusySlots_def computeFreeSlots_def findGaps_def
      mergeIntervals_def createInterval_def fromDateTimes_def roundDiv_def msPerMinute_def
      Let_def)

lemma morning_complete:
  "getAggregatedFreeBusy officeHours [workProvider] morning
     = \<lparr>calendars = [(''cal-ms'', workCalendar)],
        unifiedBusy = [\<lparr>bsStart = 3600000, bsEnd = 7200000, bsStatus = Busy,
                        eventSubject = None, eventId = None\<rparr>],
        unifiedFree = [\<lparr>fsStart = 0, fsEnd = 3600000, durationMinutes = 60\<rparr>,
                       \<lparr>fsStart = 7200000, fsEnd = 10800000, durationMinutes = 60\<rparr>],
        suggestedSlots = None,
        fbErrors = None\<rparr>"
  by (simp add: getAggregatedFreeBusy_def selectProviders_def morning_def workProvider_def
      workCalendar_def mergeBusySlots_def computeFreeSlots_def findGaps_def
      mergeIntervals_def createInterval_def fromDateTimes_def roundDiv_def msPerMinute_def
      Let_def)


text \<open>
  The response for one fulfilled and one rejected provider call, field by field: it is the
  response for the fulfilled call alone, with the \<open>errors\<close> field added, and nothing else
  marks it as partial.
\<close>

theorem getAggregatedFreeBusy_no_partial_flag:
  "getFreeBusy failingProvider morning = Inl (Error ''timeout'')
   \<and> getAggregatedFreeBusy officeHours [workProvider, failingProvider] morning
     = \<lparr>calendars = [(''cal-ms'', workCalendar)],
        unifiedBusy = [\<lparr>bsStart = 3600000, bsEnd = 7200000, bsStatus = Busy,
                        eventSubject = None, eventId = None\<rparr>],
        unifiedFree = [\<lparr>fsStart = 0, fsEnd = 3600000, durationMinutes = 60\<rparr>,
                       \<lparr>fsStart = 7200000, fsEnd = 10800000, durationMinutes = 60\<rparr>],
        suggestedSlots = None,
        fbErrors = Some [\<lparr>feProvider = Google, feCalendarId = Some ''google-work'',
                          feMessage = ''timeout''\<rparr>]\<rparr>
   \<and> getAggregatedFreeBusy officeHours [workProvider, failingProvider] morning
     = (getAggregatedFreeBusy officeHours [workProvider] morning)
         \<lparr>fbErrors := Some [\<lparr>feProvider = Google, feCalendarId = Some ''google-work'',
                             feMessage = ''timeout''\<rparr>]\<rparr>"
proof -
  have "getFreeBusy failingProvider morning = Inl (Error ''timeout'')"
    by (simp add: failingProvider_def)
  then show ?thesis by (simp add: morning_response morning_complete)
qed

theorem getAggregatedFreeBusy_partial_witness:
  "[workProvider, failingProvider]
      = selectProviders (fbProviders morning) [workProvider, failingProvider]
   \<and> [workProvider, failingProvider] \<noteq> []
   \<and> fbErrors (getAggregatedFreeBusy officeHours [workProvider, failingProvider] morning)
        = Some [\<lparr>feProvider = Google, feCalendarId = Some ''google-work'',
                  feMessage = ''timeout''\<rparr>]
   \<and> length (filter (\<lambda>p. isl (getFreeBusy p morning)) [workProvider, failingProvider]) = 1
   \<and> unifiedBusy (getAggregatedFreeBusy officeHours [workProvider, failingProvider] morning)
        = mergeBusySlots (busy workCalendar)"
proof -
  have sel: "[workProvider, failingProvider]
      = selectProviders (fbProviders morning) [workProvider, failingProvider]"
    by (simp add: selectProviders_def morning_def)
  have errs: "List.map_filter (freeBusyError morning) [workProvider, failingProvider]
      = [\<lparr>feProvider = Google, feCalendarId = Some ''google-work'', feMessage = ''timeout''\<rparr>]"
    by (simp add: freeBusyError_def workProvider_def failingProvider_def)
  have slots: "concat (map (busyOf morning) [workProvider, failingProvider]) = busy workCalendar"
    by (simp add: busyOf_def workProvider_def failingProvider_def)
  from getAggregatedFreeBusy_partial [OF sel, of officeHours] sel
  show ?thesis unfolding errs slots by simp
qed

section \<open>Greedy calendar comparison\<close>

lemma calculateMatch_events [simp]:
  "sourceEvent (calculateMatch s t) = s" "targetEvent (calculateMatch s t) = t"
  by (simp_all add: calculateMatch_def Let_def split: prod.splits)

lemma bestMatchLoop_None:
  "bestMatchLoop s M L best = None
     \<longleftrightarrow> best = None \<and> (\<forall>t \<in> set L. evId t \<notin> M \<longrightarrow> pairScore s t < 1 / 2)"
  by (induction L arbitrary: best) (auto simp: Let_def pairScore_def split: option.splits)

lemma bestMatchLoop_Some:
  "bestMatchLoop s M L best = Some m \<Longrightarrow>
     (best = Some m \<or> (\<exists>t \<in> set L. evId t \<notin> M \<and> m = calculateMatch s t \<and> 1 / 2 \<le> pairScore s t))
     \<and> (\<forall>b. best = Some b \<longrightarrow> score b \<le> score m)
     \<and> (\<forall>t \<in> set L. evId t \<notin> M \<and> 1 / 2 \<le> pairScore s t \<longrightarrow> pairScore s t \<le> score m)"
proof (induction L arbitrary: best)
  case Nil
  then show ?case by simp
next
  case (Cons t L)
  show ?case
  proof (cases "evId t \<in> M")
    case True
    with Cons.prems have "bestMatchLoop s M L best = Some m" by simp
    from Cons.IH [OF this] True show ?thesis by auto
  next
    case unclaimed: False
    show ?thesis
    proof (cases "1 / 2 \<le> pairScore s t
                  \<and> (case best of None \<Rightarrow> True | Some b \<Rightarrow> pairScore s t > score b)")
      case True
      with unclaimed Cons.prems
      have "bestMatchLoop s M L (Some (calculateMatch s t)) = Some m"
        by (cases best) (simp_all add: Let_def pairScore_def)
      from Cons.IH [OF this] True unclaimed show ?thesis
        by (cases best) (auto simp: pairScore_def)
    next
      case False
      with unclaimed Cons.prems have "bestMatchLoop s M L best = Some m"
        by (cases best) (auto simp: Let_def pairScore_def split: if_splits)
      from Cons.IH [OF this] False unclaimed show ?thesis
        by (cases best) (auto simp: pairScore_def)
    qed
  qed
qed

lemma bestMatchLoop_best:
  assumes "bestMatchLoop s M L None = Some m"
  shows "sourceEvent m = s \<and> calculateMatch s (targetEvent m) = m
         \<and> targetEvent m \<in> set L \<and> evId (targetEvent m) \<notin> M
         \<and> 1 / 2 \<le> pairScore s (targetEvent m)
         \<and> (\<forall>t \<in> set L. evId t \<notin> M \<longrightarrow> pairScore s t \<le> pairScore s (targetEvent m))"
proof -
  from bestMatchLoop_Some [OF assms] obtain t where
    t: "t \<in> set L" "evId t \<notin> M" "m = calculateMatch s t" "1 / 2 \<le> pairScore s t"
    and mx: "\<forall>t \<in> set L. evId t \<notin> M \<and> 1 / 2 \<le> pairScore s t \<longrightarrow> pairScore s t \<le> score m"
    by auto
  have sc: "score m = pairScore s t" using t(3) by (simp add: pairScore_def)
  have "pairScore s t' \<le> pairScore s t" if "t' \<in> set L" "evId t' \<notin> M" for t'
  proof (cases "1 / 2 \<le> pairScore s t'")
    case True
    with mx that sc show ?thesis by auto
  next
    case False
    with t(4) show ?thesis by simp
  qed
  with t show ?thesis by simp
qed

lemma remove1_filter_ids:
  assumes "distinct (map evId T)" "t \<in> set T"
  shows "remove1 t (filter (\<lambda>x. evId x \<notin> M) T) = filter (\<lambda>x. evId x \<notin> insert (evId t) M) T
         \<or> evId t \<in> M"
  using assms
proof (induction T)
  case Nil
  then show ?case by simp
next
  case (Cons a T)
  show ?case
  proof (cases "evId t \<in> M")
    case True
    then show ?thesis by simp
  next
    case notin: False
    show ?thesis
    proof (cases "a = t")
      case True
      have "evId x \<noteq> evId t" if "x \<in> set T" for x
      proof
        assume "evId x = evId t"
        with that have "evId t \<in> evId ` set T" by (metis imageI)
        with Cons.prems(1) True show False by simp
      qed
      then have "filter (\<lambda>x. evId x \<notin> insert (evId t) M) T = filter (\<lambda>x. evId x \<notin> M) T"
        by (intro filter_cong) auto
      with True notin show ?thesis by simp
    next
      case False
      with Cons.prems have tT: "t \<in> set T" and d: "distinct (map evId T)" by auto
      from Cons.prems(1) tT have "evId a \<noteq> evId t" by auto
      with Cons.IH [OF d tT] notin False show ?thesis by auto
    qed
  qed
qed

lemma compareLoop_greedy:
  assumes "distinct (map evId T)" "distinct (map evId S)"
  shows "\<exists>new. compareLoop S T (ms, MS, MT)
             = (ms @ new, MS \<union> evId ` sourceEvent ` set new, MT \<union> evId ` targetEvent ` set new)
       \<and> isGreedy S (filter (\<lambda>t. evId t \<notin> MT) T) (pairsOf new)
       \<and> (\<forall>m \<in> set new. calculateMatch (sourceEvent m) (targetEvent m) = m
              \<and> sourceEvent m \<in> set S \<and> targetEvent m \<in> set T \<and> evId (targetEvent m) \<notin> MT)
       \<and> distinct (map (\<lambda>m. evId (targetEvent m)) new)
       \<and> distinct (map sourceEvent new)"
  using assms(2)
proof (induction S arbitrary: ms MS MT)
  case Nil
  show ?case by (intro exI [of _ "[]"]) (simp add: pairsOf_def)
next
  case (Cons s rest)
  from Cons.prems have drest: "distinct (map evId rest)" and snew: "s \<notin> set rest" by auto
  show ?case
  proof (cases "bestMatchLoop s MT T None")
    case None
    then have low: "\<forall>t \<in> set T. evId t \<notin> MT \<longrightarrow> pairScore s t < 1 / 2"
      by (simp add: bestMatchLoop_None)
    from Cons.IH [OF drest, of ms MS MT] obtain new where new:
      "compareLoop rest T (ms, MS, MT)
             = (ms @ new, MS \<union> evId ` sourceEvent ` set new, MT \<union> evId ` targetEvent ` set new)"
      "isGreedy rest (filter (\<lambda>t. evId t \<notin> MT) T) (pairsOf new)"
      "\<forall>m \<in> set new. calculateMatch (sourceEvent m) (targetEvent m) = m
              \<and> sourceEvent m \<in> set rest \<and> targetEvent m \<in> set T \<and> evId (targetEvent m) \<notin> MT"
      "distinct (map (\<lambda>m. evId (targetEvent m)) new)"
      "distinct (map sourceEvent new)"
      by blast
    have "list_all (\<lambda>t. pairScore s t < 1 / 2) (filter (\<lambda>t. evId t \<notin> MT) T)"
      using low by (simp add: list_all_iff)
    with new(2) have "isGreedy (s # rest) (filter (\<lambda>t. evId t \<notin> MT) T) (pairsOf new)"
      by simp
    then have greedy: "isGreedy (s # rest) (filter (\<lambda>t. evId t \<notin> MT) T) (pairsOf new)" .
    have run: "compareLoop (s # rest) T (ms, MS, MT)
             = (ms @ new, MS \<union> evId ` sourceEvent ` set new, MT \<union> evId ` targetEvent ` set new)"
      using None new(1) by simp
    have each: "\<forall>m \<in> set new. calculateMatch (sourceEvent m) (targetEvent m) = m
              \<and> sourceEvent m \<in> set (s # rest) \<and> targetEvent m \<in> set T \<and> evId (targetEvent m) \<notin> MT"
      using new(3) by simp
    show ?thesis
      by (rule exI [of _ new]) (intro conjI; fact run greedy each new(4) new(5))
  next
    case (Some m)
    let ?t = "targetEvent m"
    from bestMatchLoop_best [OF Some] have m:
      "sourceEvent m = s" "calculateMatch s ?t = m" "?t \<in> set T" "evId ?t \<notin> MT"
      "1 / 2 \<le> pairScore s ?t"
      "\<forall>t \<in> set T. evId t \<notin> MT \<longrightarrow> pairScore s t \<le> pairScore s ?t"
      by simp_all
    from Cons.IH [OF drest, of "ms @ [m]" "insert (evId s) MS" "insert (evId ?t) MT"]
    obtain new where new:
      "compareLoop rest T (ms @ [m], insert (evId s) MS, insert (evId ?t) MT)
             = ((ms @ [m]) @ new, insert (evId s) MS \<union> evId ` sourceEvent ` set new,
                insert (evId ?t) MT \<union> evId ` targetEvent ` set new)"
      "isGreedy rest (filter (\<lambda>t. evId t \<notin> insert (evId ?t) MT) T) (pairsOf new)"
      "\<forall>m' \<in> set new. calculateMatch (sourceEvent m') (targetEvent m') = m'
              \<and> sourceEvent m' \<in> set rest \<and> targetEvent m' \<in> set T
              \<and> evId (targetEvent m') \<notin> insert (evId ?t) MT"
      "distinct (map (\<lambda>m. evId (targetEvent m)) new)"
      "distinct (map sourceEvent new)"
      by blast
    have run: "compareLoop (s # rest) T (ms, MS, MT)
             = (ms @ (m # new), MS \<union> evId ` sourceEvent ` set (m # new),
                MT \<union> evId ` targetEvent ` set (m # new))"
      using Some new(1) m(1) by simp
    have rem: "remove1 ?t (filter (\<lambda>t. evId t \<notin> MT) T)
                 = filter (\<lambda>t. evId t \<notin> insert (evId ?t) MT) T"
      using remove1_filter_ids [OF assms(1) m(3), of MT] m(4) by simp
    have "list_all (\<lambda>t'. pairScore s t' \<le> pairScore s ?t) (filter (\<lambda>t. evId t \<notin> MT) T)"
      using m(6) by (simp add: list_all_iff)
    with m(3,4,5) new(2) rem
    have greedy: "isGreedy (s # rest) (filter (\<lambda>t. evId t \<notin> MT) T) (pairsOf (m # new))"
      by (simp add: pairsOf_def m(1))
    have each: "\<forall>m' \<in> set (m # new). calculateMatch (sourceEvent m') (targetEvent m') = m'
              \<and> sourceEvent m' \<in> set (s # rest) \<and> targetEvent m' \<in> set T
              \<and> evId (targetEvent m') \<notin> MT"
    proof
      fix m' assume "m' \<in> set (m # new)"
      then consider "m' = m" | "m' \<in> set new" by auto
      then show "calculateMatch (sourceEvent m') (targetEvent m') = m'
              \<and> sourceEvent m' \<in> set (s # rest) \<and> targetEvent m' \<in> set T
              \<and> evId (targetEvent m') \<notin> MT"
      proof cases
        case 1
        with m show ?thesis by simp
      next
        case 2
        with new(3) show ?thesis by simp
      qed
    qed
    have dt: "distinct (map (\<lambda>m. evId (targetEvent m)) (m # new))"
    proof -
      have "evId ?t \<notin> (\<lambda>m. evId (targetEvent m)) ` set new"
        using new(3) by force
      with new(4) show ?thesis by simp
    qed
    have ds: "distinct (map sourceEvent (m # new))"
    proof -
      have "s \<notin> sourceEvent ` set new"
        using new(3) snew by force
      with new(5) m(1) show ?thesis by simp
    qed
    show ?thesis
      by (rule exI [of _ "m # new"]) (intro conjI; fact run greedy each dt ds)
  qed
qed

lemma ids_member:
  assumes "distinct (map evId L)" "A \<subseteq> set L" "e \<in> set L"
  shows "evId e \<in> evId ` A \<longleftrightarrow> e \<in> A"
proof -
  from assms(1) have "inj_on evId (set L)" by (simp add: distinct_map)
  with assms(2,3) show ?thesis by (meson inj_on_image_mem_iff)
qed

lemma compareEvents_greedy:
  assumes "distinct (map evId S)" "distinct (map evId T)"
  shows "isGreedy S T (pairsOf (matches (compareEvents p S T)))
     \<and> (\<forall>m \<in> set (matches (compareEvents p S T)).
           calculateMatch (sourceEvent m) (targetEvent m) = m)
     \<and> distinct (map targetEvent (matches (compareEvents p S T)))
     \<and> distinct (map sourceEvent (matches (compareEvents p S T)))
     \<and> sourceOnly (compareEvents p S T)
         = filter (\<lambda>s. s \<notin> sourceEvent ` set (matches (compareEvents p S T))) S
     \<and> targetOnly (compareEvents p S T)
         = filter (\<lambda>t. t \<notin> targetEvent ` set (matches (compareEvents p S T))) T"
proof -
  from compareLoop_greedy [OF assms(2) assms(1), of "[]" "{}" "{}"]
  have "\<exists>new. compareLoop S T ([], {}, {})
       = (new, evId ` sourceEvent ` set new, evId ` targetEvent ` set new)
    \<and> isGreedy S T (pairsOf new)
    \<and> (\<forall>m \<in> set new. calculateMatch (sourceEvent m) (targetEvent m) = m
              \<and> sourceEvent m \<in> set S \<and> targetEvent m \<in> set T)
    \<and> distinct (map (\<lambda>m. evId (targetEvent m)) new)
    \<and> distinct (map sourceEvent new)"
    by simp
  then obtain new where new:
    "compareLoop S T ([], {}, {})
       = (new, evId ` sourceEvent ` set new, evId ` targetEvent ` set new)"
    "isGreedy S T (pairsOf new)"
    "\<forall>m \<in> set new. calculateMatch (sourceEvent m) (targetEvent m) = m
              \<and> sourceEvent m \<in> set S \<and> targetEvent m \<in> set T"
    "distinct (map (\<lambda>m. evId (targetEvent m)) new)"
    "distinct (map sourceEvent new)"
    by blast
  have ms: "matches (compareEvents p S T) = new"
    and so: "sourceOnly (compareEvents p S T) = filter (\<lambda>e. evId e \<notin> evId ` sourceEvent ` set new) S"
    and to: "targetOnly (compareEvents p S T) = filter (\<lambda>e. evId e \<notin> evId ` targetEvent ` set new) T"
    using new(1) by (simp_all add: compareEvents_def Let_def)
  have subS: "sourceEvent ` set new \<subseteq> set S" and subT: "targetEvent ` set new \<subseteq> set T"
    using new(3) by auto
  have so': "filter (\<lambda>e. evId e \<notin> evId ` sourceEvent ` set new) S
               = filter (\<lambda>s. s \<notin> sourceEvent ` set new) S"
    by (rule filter_cong) (simp_all add: ids_member [OF assms(1) subS])
  have to': "filter (\<lambda>e. evId e \<notin> evId ` targetEvent ` set new) T
               = filter (\<lambda>t. t \<notin> targetEvent ` set new) T"
    by (rule filter_cong) (simp_all add: ids_member [OF assms(2) subT])
  have dt: "distinct (map targetEvent new)"
  proof -
    have "map (\<lambda>m. evId (targetEvent m)) new = map evId (map targetEvent new)" by simp
    with new(4) have "distinct (map evId (map targetEvent new))" by simp
    then show ?thesis by (auto simp: distinct_map dest: inj_on_imageI2)
  qed
  have each: "\<forall>m \<in> set new. calculateMatch (sourceEvent m) (targetEvent m) = m"
    using new(3) by simp
  show ?thesis
    unfolding ms so to so' to' by (intro conjI; fact new(2) each dt new(5) refl)
qed

text \<open>
  When the event ids are pairwise distinct within the source list and within the target
  list, the matches are a greedy first-come-first-served assignment of the target events
  to the source events in their original order (\<open>isGreedy\<close>); every match is the computed
  match of its pair; no target event and no source event occurs in two matches; and
  \<open>sourceOnly\<close> and \<open>targetOnly\<close> are exactly the events of each side that occur in no
  match, in their original order.
\<close>

lemma compareCalendars_greedy:
  assumes "S = sourceEventsOf registry p" and "T = targetEventsOf registry p"
    and "distinct (map evId S)" and "distinct (map evId T)"
  shows "isGreedy S T (pairsOf (matches (compareCalendars registry p)))
     \<and> (\<forall>m \<in> set (matches (compareCalendars registry p)).
           calculateMatch (sourceEvent m) (targetEvent m) = m)
     \<and> distinct (map targetEvent (matches (compareCalendars registry p)))
     \<and> distinct (map sourceEvent (matches (compareCalendars registry p)))
     \<and> sourceOnly (compareCalendars registry p)
         = filter (\<lambda>s. s \<notin> sourceEvent ` set (matches (compareCalendars registry p))) S
     \<and> targetOnly (compareCalendars registry p)
         = filter (\<lambda>t. t \<notin> targetEvent ` set (matches (compareCalendars registry p))) T"
  using compareEvents_greedy [OF assms(3) assms(4), of p]
  unfolding compareCalendars_def assms(1) [symmetric] assms(2) [symmetric] .

lemma standup_score:
  "pairScore (standup a pa ca ea) (standup b pb cb eb) = (65 + 20 * timeScore \<bar>ea - eb\<bar>) / 85"
proof -
  have sub: "fuzzyMatch ''Standup'' ''Standup'' = 1" by (simp add: fuzzyMatch_def)
  have "matchTotals (standup a pa ca ea) (standup b pb cb eb)
          = (map fst (factorScores (standup a pa ca ea) (standup b pb cb eb)),
             85, 65 + 20 * timeScore \<bar>ea - eb\<bar>)"
    unfolding matchTotals_sums
    by (simp add: factorScores_def subjectFactor_def startFactor_def endFactor_def
        allDayFactor_def timeScore_def truthy_def standup_def sub Let_def)
  then show ?thesis by (simp add: pairScore_def calculateMatch_def Let_def)
qed

lemma sync_sources:
  "sourceEventsOf [providerWith Google ''g'' evs, providerWith Microsoft ''ms'' evs'] syncRequest
     = sort_key evStart evs"
  "targetEventsOf [providerWith Google ''g'' evs, providerWith Microsoft ''ms'' evs'] syncRequest
     = sort_key evStart evs'"
  by (simp_all add: sourceEventsOf_def targetEventsOf_def listAllEvents_def selectProviders_def
      syncListParams_def syncRequest_def providerWith_def truthy_def)

lemma standup_id: "evId (standup a pa ca ea) = a"
  by (simp add: standup_def)

lemma standup_scores:
  "score (calculateMatch (standup ''s1'' Google ''primary'' 1920000)
          (standup b Microsoft cb 1800000)) = 15 / 17"
  "score (calculateMatch (standup ''s2'' Google ''primary'' 1800000)
          (standup b Microsoft cb 1800000)) = 1"
  using standup_score [of "''s1''" Google "''primary''" 1920000 b Microsoft cb 1800000]
        standup_score [of "''s2''" Google "''primary''" 1800000 b Microsoft cb 1800000]
  by (simp_all add: pairScore_def timeScore_def)

lemma compareCalendars_greedy_example:
  "distinct (map evId [standup ''s1'' Google ''primary'' 1920000,
                       standup ''s2'' Google ''primary'' 1800000])
   \<and> distinct (map evId [standup ''t1'' Microsoft ''primary'' 1800000])
   \<and> matches (compareCalendars
        [providerWith Google ''g'' [standup ''s1'' Google ''primary'' 1920000,
                                    standup ''s2'' Google ''primary'' 1800000],
         providerWith Microsoft ''ms'' [standup ''t1'' Microsoft ''primary'' 1800000]] syncRequest)
      = [calculateMatch (standup ''s1'' Google ''primary'' 1920000)
           (standup ''t1'' Microsoft ''primary'' 1800000)]
   \<and> sourceOnly (compareCalendars
        [providerWith Google ''g'' [standup ''s1'' Google ''primary'' 1920000,
                                    standup ''s2'' Google ''primary'' 1800000],
         providerWith Microsoft ''ms'' [standup ''t1'' Microsoft ''primary'' 1800000]] syncRequest)
      = [standup ''s2'' Google ''primary'' 1800000]
   \<and> targetOnly (compareCalendars
        [providerWith Google ''g'' [standup ''s1'' Google ''primary'' 1920000,
                                    standup ''s2'' Google ''primary'' 1800000],
         providerWith Microsoft ''ms'' [standup ''t1'' Microsoft ''primary'' 1800000]] syncRequest)
      = []
   \<and> pairScore (standup ''s1'' Google ''primary'' 1920000)
         (standup ''t1'' Microsoft ''primary'' 1800000)
       < pairScore (standup ''s2'' Google ''primary'' 1800000)
           (standup ''t1'' Microsoft ''primary'' 1800000)"
proof -
  let ?reg = "[providerWith Google ''g'' [standup ''s1'' Google ''primary'' 1920000,
                                    standup ''s2'' Google ''primary'' 1800000],
         providerWith Microsoft ''ms'' [standup ''t1'' Microsoft ''primary'' 1800000]]"
  have src: "[standup ''s1'' Google ''primary'' 1920000, standup ''s2'' Google ''primary'' 1800000]
               = sourceEventsOf ?reg syncRequest"
    unfolding sync_sources by (simp add: standup_def)
  have tgt: "[standup ''t1'' Microsoft ''primary'' 1800000] = targetEventsOf ?reg syncRequest"
    unfolding sync_sources by simp
  have d1: "distinct (map evId [standup ''s1'' Google ''primary'' 1920000,
                       standup ''s2'' Google ''primary'' 1800000])"
    by (simp add: standup_id)
  have d2: "distinct (map evId [standup ''t1'' Microsoft ''primary'' 1800000])"
    by simp
  have ms: "matches (compareCalendars ?reg syncRequest)
      = [calculateMatch (standup ''s1'' Google ''primary'' 1920000)
           (standup ''t1'' Microsoft ''primary'' 1800000)]"
    unfolding compareCalendars_def src [symmetric] tgt [symmetric]
    by (simp add: compareEvents_def Let_def standup_scores standup_id)
  have ne: "standup ''s2'' Google ''primary'' 1800000 \<noteq> standup ''s1'' Google ''primary'' 1920000"
    by (simp add: standup_def)
  from compareCalendars_greedy [OF src tgt d1 d2]
  have "sourceOnly (compareCalendars ?reg syncRequest) = [standup ''s2'' Google ''primary'' 1800000]
     \<and> targetOnly (compareCalendars ?reg syncRequest) = []"
    unfolding ms using ne by simp
  with d1 d2 ms show ?thesis by (simp add: pairScore_def standup_scores)
qed

text \<open>
  C6. The claim has every source event take the best-scoring target event that is still
  unmatched, and has the events left unmatched on each side returned exactly as
  \<open>sourceOnly\<close> and \<open>targetOnly\<close>. \<open>compareCalendars\<close> records claimed events by id alone.
  With two target events that share an id (the same meeting listed from two calendars of
  the target provider), the first source event claims the first of them; the second is
  then skipped by the second source event, which scores 1 with it and stays unmatched,
  and it is filtered out of \<open>targetOnly\<close> although it is in no match: of two target
  events the statistics count one as matched and none as target-only.
\<close>

theorem compareCalendars_shared_id:
  "matches (compareCalendars
        [providerWith Google ''g'' [standup ''s1'' Google ''primary'' 1920000,
                                    standup ''s2'' Google ''primary'' 1800000],
         providerWith Microsoft ''ms'' [standup ''dup'' Microsoft ''work'' 1800000,
                                        standup ''dup'' Microsoft ''home'' 1800000]] syncRequest)
      = [calculateMatch (standup ''s1'' Google ''primary'' 1920000)
           (standup ''dup'' Microsoft ''work'' 1800000)]
   \<and> sourceOnly (compareCalendars
        [providerWith Google ''g'' [standup ''s1'' Google ''primary'' 1920000,
                                    standup ''s2'' Google ''primary'' 1800000],
         providerWith Microsoft ''ms'' [standup ''dup'' Microsoft ''work'' 1800000,
                                        standup ''dup'' Microsoft ''home'' 1800000]] syncRequest)
      = [standup ''s2'' Google ''primary'' 1800000]
   \<and> targetOnly (compareCalendars
        [providerWith Google ''g'' [standup ''s1'' Google ''primary'' 1920000,
                                    standup ''s2'' Google ''primary'' 1800000],
         providerWith Microsoft ''ms'' [standup ''dup'' Microsoft ''work'' 1800000,
                                        standup ''dup'' Microsoft ''home'' 1800000]] syncRequest)
      = []
   \<and> statistics (compareCalendars
        [providerWith Google ''g'' [standup ''s1'' Google ''primary'' 1920000,
                                    standup ''s2'' Google ''primary'' 1800000],
         providerWith Microsoft ''ms'' [standup ''dup'' Microsoft ''work'' 1800000,
                                        standup ''dup'' Microsoft ''home'' 1800000]] syncRequest)
      = \<lparr>totalSourceEvents = 2, totalTargetEvents = 2, matchedCount = 1,
         sourceOnlyCount = 1, targetOnlyCount = 0\<rparr>
   \<and> standup ''dup'' Microsoft ''home'' 1800000 \<noteq> standup ''dup'' Microsoft ''work'' 1800000
   \<and> pairScore (standup ''s2'' Google ''primary'' 1800000)
         (standup ''dup'' Microsoft ''home'' 1800000) = 1"
proof -
  let ?reg = "[providerWith Google ''g'' [standup ''s1'' Google ''primary'' 1920000,
                                    standup ''s2'' Google ''primary'' 1800000],
         providerWith Microsoft ''ms'' [standup ''dup'' Microsoft ''work'' 1800000,
                                        standup ''dup'' Microsoft ''home'' 1800000]]"
  have src: "sourceEventsOf ?reg syncRequest
      = [standup ''s1'' Google ''primary'' 1920000, standup ''s2'' Google ''primary'' 1800000]"
    unfolding sync_sources by (simp add: standup_def)
  have tgt: "targetEventsOf ?reg syncRequest
      = [standup ''dup'' Microsoft ''work'' 1800000, standup ''dup'' Microsoft ''home'' 1800000]"
    unfolding sync_sources by (simp add: standup_def)
  have ne: "standup ''dup'' Microsoft ''home'' 1800000 \<noteq> standup ''dup'' Microsoft ''work'' 1800000"
    by (simp add: standup_def)
  have "matches (compareCalendars ?reg syncRequest)
      = [calculateMatch (standup ''s1'' Google ''primary'' 1920000)
           (standup ''dup'' Microsoft ''work'' 1800000)]
   \<and> sourceOnly (compareCalendars ?reg syncRequest) = [standup ''s2'' Google ''primary'' 1800000]
   \<and> targetOnly (compareCalendars ?reg syncRequest) = []
   \<and> statistics (compareCalendars ?reg syncRequest)
      = \<lparr>totalSourceEvents = 2, totalTargetEvents = 2, matchedCount = 1,
         sourceOnlyCount = 1, targetOnlyCount = 0\<rparr>"
    unfolding compareCalendars_def src tgt
    by (simp add: compareEvents_def Let_def standup_scores standup_id)
  with ne show ?thesis by (simp add: pairScore_def standup_scores)
qed

section \<open>Gaps between busy intervals\<close>

lemma positive_Interval: "positive i \<Longrightarrow> i = Interval (ivStart i) (ivEnd i)"
  by (cases i) (simp_all add: positive_def)

lemma positive_simp [simp]: "positive (Interval s e) = (s < e)"
  by (simp add: positive_def)

lemma covers_Nil [simp]: "covers [] t = False"
  by (simp add: covers_def)

lemma covers_Cons: "covers (i # L) t = ((isValid i \<and> ivStart i \<le> t \<and> t < ivEnd i) \<or> covers L t)"
  by (auto simp: covers_def)









text \<open>
  The invariant is needed when \<open>findGaps\<close> is called on its own. A busy interval from 09:00
  to 10:00 followed by a zero-length interval at 09:00, in the range from 08:00 to 12:00
  (as epoch milliseconds of 1970-01-01): \<open>mergeIntervals\<close> leaves the two apart, since the
  zero-length interval neither overlaps the first one nor starts where it ends; \<open>findGaps\<close>
  then sets its cursor back to 09:00 and returns the gap from 09:00 to 12:00, so that
  09:30 lies both in a gap and in a busy interval. The availability engine calls
  \<open>findGaps\<close> on the slots of \<open>mergeBusySlots\<close> only, which coalesces every slot that starts
  no later than the current one ends.
\<close>

lemma findGaps_zero_length_tie:
  "mergeIntervals [Interval 32400000 36000000, Interval 32400000 32400000]
     = [Interval 32400000 36000000, Interval 32400000 32400000]
   \<and> findGaps [Interval 32400000 36000000, Interval 32400000 32400000] 28800000 43200000
     = [Interval 28800000 32400000, Interval 32400000 43200000]
   \<and> covers (findGaps [Interval 32400000 36000000, Interval 32400000 32400000] 28800000 43200000)
        34200000
   \<and> covers (mergeIntervals [Interval 32400000 36000000, Interval 32400000 32400000]) 34200000
   \<and> covers [Interval 32400000 36000000, Interval 32400000 32400000] 34200000"
proof -
  have m: "mergeIntervals [Interval 32400000 36000000, Interval 32400000 32400000]
     = [Interval 32400000 36000000, Interval 32400000 32400000]"
    by (simp add: mergeIntervals_def overlaps_def abutsStart_def fromDateTimes_def)
  have g: "findGaps [Interval 32400000 36000000, Interval 32400000 32400000] 28800000 43200000
     = [Interval 28800000 32400000, Interval 32400000 43200000]"
    by (simp add: findGaps_def m fromDateTimes_def)
  show ?thesis unfolding m g by (simp add: covers_Cons)
qed

end
